theory Spec2Isabelle
  imports Complex_Main "HOL-Library.Word" "HOL-Library.Stream"
begin

section \<open>Randomized backgrounds: the frame sampler and the capture script\<close>

text \<open>
  The development embeds \<^verbatim>\<open>utils/frame_samplers.py\<close> (the class
  \<^verbatim>\<open>Randomized_Frame_Sampler\<close>) and the capture and save blocks of
  \<^verbatim>\<open>random_backgrounds.py\<close>.

  Conventions of the embedding.
  \<^item> Python integers are \<open>int\<close>. Python and numpy floating-point numbers are modelled by
    exact rationals (\<open>rat\<close>): sums, products and quotients are the exact ones, so the
    rounding of binary64 arithmetic is not part of the model.
  \<^item> The fixed-width numpy types that the source names are machine words:
    \<^verbatim>\<open>np.int32\<close> is \<open>32 word\<close> (read by \<open>sint\<close>), \<^verbatim>\<open>np.uint8\<close> is \<open>8 word\<close>
    (read by \<open>unat\<close>).
  \<^item> The global generator \<^verbatim>\<open>np.random\<close> is an explicit state: a stream of raw draws that
    each call consumes from the front.
  \<^item> An exception is a value \<open>Inl e\<close> of a sum type.
\<close>

subsection \<open>Library operations\<close>

datatype py_error = ValueError

type_synonym rng = "nat stream"

text \<open>
  \<^verbatim>\<open>np.random.randint(low, high)\<close>: an integer of the half-open range \<open>[low, high)\<close>,
  \<^verbatim>\<open>ValueError\<close> when the range is empty. Every value of the range is the image of some raw draw.
\<close>

definition np_random_randint :: "int \<Rightarrow> int \<Rightarrow> rng \<Rightarrow> py_error + (int \<times> rng)" where
  "np_random_randint low high g =
     (if high \<le> low then Inl ValueError
      else Inr (low + int (shd g) mod (high - low), stl g))"

text \<open>\<^verbatim>\<open>np.random.rand()\<close>: a multiple of \<open>2^-53\<close> in the half-open interval \<open>[0, 1)\<close>.\<close>

definition np_random_rand :: "rng \<Rightarrow> rat \<times> rng" where
  "np_random_rand g = (of_nat (shd g mod 2 ^ 53) / 2 ^ 53, stl g)"

text \<open>
  \<^verbatim>\<open>np.linspace(start, stop, num)\<close> with the default \<^verbatim>\<open>endpoint=True\<close>, as numpy computes
  it: \<^verbatim>\<open>arange(0, num) * step + start\<close> with \<^verbatim>\<open>step = (stop - start) / (num - 1)\<close>, the
  last entry overwritten by \<^verbatim>\<open>stop\<close> when \<^verbatim>\<open>num > 1\<close>; a negative \<^verbatim>\<open>num\<close> raises.
\<close>

definition np_linspace :: "rat \<Rightarrow> rat \<Rightarrow> int \<Rightarrow> py_error + rat list" where
  "np_linspace start stop num =
     (if num < 0 then Inl ValueError
      else
        let dv = num - 1;
            delta = stop - start;
            y0 = map rat_of_nat [0..<nat num];
            y1 = (if 0 < dv then map (\<lambda>v. v * (delta / of_int dv)) y0
                  else map (\<lambda>v. v * delta) y0);
            y2 = map (\<lambda>v. v + start) y1
        in Inr (if 1 < num then y2[nat num - 1 := stop] else y2))"

text \<open>\<^verbatim>\<open>int(x)\<close> of a float: truncation towards zero.\<close>

definition py_int :: "rat \<Rightarrow> int" where
  "py_int x = (if 0 \<le> x then \<lfloor>x\<rfloor> else \<lceil>x\<rceil>)"

text \<open>\<^verbatim>\<open>np.round\<close>: to the nearest integer, a tie to the even neighbour.\<close>

definition np_round :: "rat \<Rightarrow> int" where
  "np_round x =
     (let f = \<lfloor>x\<rfloor>; r = x - of_int f
      in if r < 1 / 2 then f
         else if 1 / 2 < r then f + 1
         else if even f then f else f + 1)"

text \<open>
  \<^verbatim>\<open>np.int32(...)\<close> and \<^verbatim>\<open>np.uint8(...)\<close> of an integer-valued float array: exact inside
  the range of the type. Outside it the conversion is not defined by numpy (the value depends
  on the platform); the model takes the low bits. No theorem below relies on that choice: no
  32-bit value equals an integer outside the 32-bit range, whatever the platform yields.
\<close>

definition np_int32 :: "int \<Rightarrow> 32 word" where
  "np_int32 i = word_of_int i"

definition np_uint8 :: "int \<Rightarrow> 8 word" where
  "np_uint8 i = word_of_int i"

subsection \<open>The sampler\<close>

record sampler =
  video_width :: int
  video_height :: int
  max_x_shift :: int
  max_y_shift :: int
  min_duration :: rat
  max_duration :: rat
  num_samples :: int
  crop_y1y2x1x2 :: "int \<times> int \<times> int \<times> int"
  norm_sample_idxs :: "rat list"

text \<open>
  \<^verbatim>\<open>_get_randomized_crop_coords\<close>. The operands of \<^verbatim>\<open>int(crop_x1 + output_width)\<close> are
  integers, so that \<^verbatim>\<open>int\<close> is the identity.
\<close>

definition get_randomized_crop_coords ::
  "sampler \<Rightarrow> rng \<Rightarrow> py_error + ((int \<times> int \<times> int \<times> int) \<times> rng)" where
  "get_randomized_crop_coords s g =
     (let output_width = video_width s - max_x_shift s;
          output_height = video_height s - max_y_shift s
      in case np_random_randint 0 (max_x_shift s + 1) g of
           Inl e \<Rightarrow> Inl e
         | Inr (crop_x1, g1) \<Rightarrow>
             (case np_random_randint 0 (max_y_shift s + 1) g1 of
                Inl e \<Rightarrow> Inl e
              | Inr (crop_y1, g2) \<Rightarrow>
                  let crop_x2 = crop_x1 + output_width;
                      crop_y2 = crop_y1 + output_height
                  in Inr ((crop_y1, crop_y2, crop_x1, crop_x2), g2)))"

text \<open>\<^verbatim>\<open>_get_randomized_norm_sampling_indices\<close>.\<close>

definition get_randomized_norm_sampling_indices ::
  "sampler \<Rightarrow> rng \<Rightarrow> py_error + (rat list \<times> rng)" where
  "get_randomized_norm_sampling_indices s g =
     (let (r1, g1) = np_random_rand g;
          norm_sample_duration = min_duration s + (max_duration s - min_duration s) * r1;
          (r2, g2) = np_random_rand g1;
          earliest_norm_sample = (1 - norm_sample_duration) * r2;
          latest_norm_sample = earliest_norm_sample + norm_sample_duration
      in case np_linspace earliest_norm_sample latest_norm_sample (num_samples s) of
           Inl e \<Rightarrow> Inl e
         | Inr idxs \<Rightarrow> Inr (idxs, g2))"

text \<open>
  \<^verbatim>\<open>__init__\<close>: the inputs are stored (the duration pair sorted), then the two derived
  attributes are computed from the stored inputs. The two attributes do not exist before they
  are assigned; the record holds \<open>(0, 0, 0, 0)\<close> and \<open>[]\<close> there until then, which neither
  helper reads.
\<close>

definition Randomized_Frame_Sampler ::
  "int \<times> int \<Rightarrow> int \<times> int \<Rightarrow> rat \<times> rat \<Rightarrow> int \<Rightarrow> rng \<Rightarrow> py_error + (sampler \<times> rng)" where
  "Randomized_Frame_Sampler video_wh max_shift_xy min_max_sampling_duration n g =
     (let s0 = \<lparr> video_width = fst video_wh, video_height = snd video_wh,
                 max_x_shift = fst max_shift_xy, max_y_shift = snd max_shift_xy,
                 min_duration = min (fst min_max_sampling_duration) (snd min_max_sampling_duration),
                 max_duration = max (fst min_max_sampling_duration) (snd min_max_sampling_duration),
                 num_samples = n,
                 crop_y1y2x1x2 = (0, 0, 0, 0), norm_sample_idxs = [] \<rparr>
      in case get_randomized_crop_coords s0 g of
           Inl e \<Rightarrow> Inl e
         | Inr (crop, g1) \<Rightarrow>
             let s1 = s0\<lparr>crop_y1y2x1x2 := crop\<rparr>
             in (case get_randomized_norm_sampling_indices s1 g1 of
                   Inl e \<Rightarrow> Inl e
                 | Inr (idxs, g2) \<Rightarrow> Inr (s1\<lparr>norm_sample_idxs := idxs\<rparr>, g2)))"

definition disable_random_shift :: "sampler \<Rightarrow> sampler" where
  "disable_random_shift s =
     (let output_width = video_width s - max_x_shift s;
          output_height = video_height s - max_y_shift s;
          crop_x1 = py_int (of_int (max_x_shift s) / 2);
          crop_y1 = py_int (of_int (max_y_shift s) / 2);
          crop_x2 = crop_x1 + output_width;
          crop_y2 = crop_y1 + output_height
      in s\<lparr>crop_y1y2x1x2 := (crop_y1, crop_y2, crop_x1, crop_x2)\<rparr>)"

text \<open>
  \<^verbatim>\<open>disable_random_sample_timing\<close>. Where \<^verbatim>\<open>np.linspace\<close> raises (a negative
  \<open>num_samples\<close>, which no constructed sampler has), the exception leaves the method after
  the duration bounds were assigned; the model returns the exception alone.
\<close>

definition disable_random_sample_timing :: "sampler \<Rightarrow> rng \<Rightarrow> py_error + (sampler \<times> rng)" where
  "disable_random_sample_timing s g =
     (let s1 = s\<lparr>min_duration := 1, max_duration := 1\<rparr>
      in case get_randomized_norm_sampling_indices s1 g of
           Inl e \<Rightarrow> Inl e
         | Inr (idxs, g1) \<Rightarrow> Inr (s1\<lparr>norm_sample_idxs := idxs\<rparr>, g1))"

text \<open>
  A Python slice \<^verbatim>\<open>xs[a:b]\<close>: a negative bound counts from the end, and both bounds are
  clipped to the length.
\<close>

definition slice_bound :: "nat \<Rightarrow> int \<Rightarrow> nat" where
  "slice_bound n i = (if i < 0 then nat (max 0 (i + int n)) else min (nat i) n)"

definition py_slice :: "int \<Rightarrow> int \<Rightarrow> 'a list \<Rightarrow> 'a list" where
  "py_slice a b xs =
     (let lo = slice_bound (length xs) a; hi = slice_bound (length xs) b
      in take (hi - lo) (drop lo xs))"

text \<open>
  A frame is an array of rows, a row an array of pixels, a pixel an array of channel values.
  \<^verbatim>\<open>crop\<close> slices the rows and, in each row, the columns.
\<close>

type_synonym pixel = "8 word list"
type_synonym frame = "pixel list list"

definition crop :: "sampler \<Rightarrow> frame \<Rightarrow> frame" where
  "crop s frame =
     (case crop_y1y2x1x2 s of
        (crop_y1, crop_y2, crop_x1, crop_x2) \<Rightarrow>
          map (py_slice crop_x1 crop_x2) (py_slice crop_y1 crop_y2 frame))"

definition get_xy_shift :: "sampler \<Rightarrow> int \<times> int" where
  "get_xy_shift s =
     (let centered_x = py_int (of_int (max_x_shift s) / 2);
          centered_y = py_int (of_int (max_y_shift s) / 2)
      in case crop_y1y2x1x2 s of
           (crop_y1, _, crop_x1, _) \<Rightarrow> (crop_x1 - centered_x, crop_y1 - centered_y))"

definition get_frame_indices :: "sampler \<Rightarrow> int \<Rightarrow> 32 word list" where
  "get_frame_indices s total_video_frames =
     map (\<lambda>p. np_int32 (np_round (of_int (total_video_frames - 1) * p))) (norm_sample_idxs s)"

text \<open>
  The two local variables of \<^verbatim>\<open>_get_randomized_norm_sampling_indices\<close> that fix the
  sampling window, as functions of the sampler and of the generator state at the call: the
  window runs from \<open>earliest_norm_sample\<close> over the length \<open>norm_sample_duration\<close>.
\<close>

definition norm_sample_duration :: "sampler \<Rightarrow> rng \<Rightarrow> rat" where
  "norm_sample_duration s g =
     min_duration s + (max_duration s - min_duration s) * fst (np_random_rand g)"

definition earliest_norm_sample :: "sampler \<Rightarrow> rng \<Rightarrow> rat" where
  "earliest_norm_sample s g =
     (1 - norm_sample_duration s g) * fst (np_random_rand (snd (np_random_rand g)))"

text \<open>
  The samplers a program can hold: an object returned by the constructor, possibly after
  calls of its two mutators.
\<close>

inductive_set samplers :: "sampler set" where
  constructed:
    "Randomized_Frame_Sampler video_wh max_shift_xy min_max_sampling_duration n g = Inr (s, g')
     \<Longrightarrow> s \<in> samplers"
| shift_disabled: "s \<in> samplers \<Longrightarrow> disable_random_shift s \<in> samplers"
| timing_disabled:
    "s \<in> samplers \<Longrightarrow> disable_random_sample_timing s g = Inr (s', g') \<Longrightarrow> s' \<in> samplers"

text \<open>
  The public methods as calls on an object: a call returns a value and leaves the object (and
  the generator) in a state. A method without an assignment to \<^verbatim>\<open>self\<close> returns the
  sampler it was called on.
\<close>

datatype method_call =
    Call_disable_random_shift
  | Call_disable_random_sample_timing
  | Call_crop frame
  | Call_get_xy_shift
  | Call_get_frame_indices int

datatype return_value =
    Returns_None
  | Returns_frame frame
  | Returns_shift "int \<times> int"
  | Returns_indices "32 word list"

fun call_method ::
  "method_call \<Rightarrow> sampler \<Rightarrow> rng \<Rightarrow> py_error + (return_value \<times> sampler \<times> rng)" where
  "call_method Call_disable_random_shift s g = Inr (Returns_None, disable_random_shift s, g)"
| "call_method Call_disable_random_sample_timing s g =
     (case disable_random_sample_timing s g of
        Inl e \<Rightarrow> Inl e
      | Inr (s', g') \<Rightarrow> Inr (Returns_None, s', g'))"
| "call_method (Call_crop frame) s g = Inr (Returns_frame (crop s frame), s, g)"
| "call_method Call_get_xy_shift s g = Inr (Returns_shift (get_xy_shift s), s, g)"
| "call_method (Call_get_frame_indices total_video_frames) s g =
     Inr (Returns_indices (get_frame_indices s total_video_frames), s, g)"

subsection \<open>The capture loop\<close>

text \<open>
  The video reader: \<^verbatim>\<open>vread.set(cv2.CAP_PROP_POS_FRAMES, idx)\<close> followed by
  \<^verbatim>\<open>vread.read()\<close> yields a frame or the failure flag, for each requested position.
\<close>

type_synonym video_reader = "int \<Rightarrow> frame option"

datatype printed = Error_reading_frame_Skipping "32 word"

text \<open>
  The inner loop of the capture block: a failed read prints the warning and continues with
  the next index, a frame that was read is cropped and appended.
\<close>

fun capture_samples ::
  "sampler \<Rightarrow> video_reader \<Rightarrow> 32 word list \<Rightarrow> frame list \<Rightarrow> printed list
     \<Rightarrow> frame list \<times> printed list" where
  "capture_samples s vread [] cropped_samples_list out = (cropped_samples_list, out)"
| "capture_samples s vread (each_sample_idx # rest) cropped_samples_list out =
     (case vread (sint each_sample_idx) of
        None \<Rightarrow>
          capture_samples s vread rest cropped_samples_list
            (out @ [Error_reading_frame_Skipping each_sample_idx])
      | Some frame \<Rightarrow>
          capture_samples s vread rest (cropped_samples_list @ [crop s frame]) out)"

text \<open>
  \<^verbatim>\<open>np.median\<close> of a one-dimensional sample: the middle element of the sorted values, or
  the mean of the two middle elements. It is applied to non-empty samples only: the empty
  collection is a case of its own in \<open>np_median_axis0\<close> below.
\<close>

definition median_1d :: "rat list \<Rightarrow> rat" where
  "median_1d xs =
     (let part = sort xs; sz = length xs
      in if odd sz then part ! (sz div 2)
         else (part ! (sz div 2 - 1) + part ! (sz div 2)) / 2)"

text \<open>
  The value of \<^verbatim>\<open>np.median(cropped_samples_list, axis = 0)\<close> and of the two conversions
  after it: an array with the shape of one cropped frame, or the scalar NaN that numpy returns
  (with a runtime warning, not an exception) for an empty list.
\<close>

datatype 'a reduced = Nan_scalar | Array "'a list list list"

text \<open>
  \<^verbatim>\<open>np.median(cropped_samples_list, axis = 0)\<close>: the list becomes one array, which numpy
  refuses when the frames differ in shape; the median then runs over the samples at each
  row, column and channel.
\<close>

definition np_median_axis0 :: "frame list \<Rightarrow> py_error + rat reduced" where
  "np_median_axis0 fs =
     (if fs = [] then Inr Nan_scalar
      else if \<exists>f \<in> set fs. map (map length) f \<noteq> map (map length) (hd fs) then Inl ValueError
      else Inr (Array
        (map (\<lambda>y. map (\<lambda>x. map (\<lambda>c. median_1d (map (\<lambda>f. of_nat (unat (f ! y ! x ! c))) fs))
                              [0..<length (hd fs ! y ! x)])
                    [0..<length (hd fs ! y)])
             [0..<length (hd fs)])))"

text \<open>
  \<^verbatim>\<open>np.uint8(np.round(...))\<close>, element by element. The conversion of NaN is a
  scalar and not an image; its bits depend on the platform and are not modelled.
\<close>

fun np_uint8_round :: "rat reduced \<Rightarrow> 8 word reduced" where
  "np_uint8_round Nan_scalar = Nan_scalar"
| "np_uint8_round (Array a) = Array (map (map (map (\<lambda>m. np_uint8 (np_round m)))) a)"

text \<open>One pass of the outer loop: the inner loop, then the reduction of what it collected.\<close>

definition new_median_bg :: "frame list \<Rightarrow> py_error + 8 word reduced" where
  "new_median_bg cropped_samples_list =
     (case np_median_axis0 cropped_samples_list of
        Inl e \<Rightarrow> Inl e
      | Inr m \<Rightarrow> Inr (np_uint8_round m))"

definition capture_variant ::
  "sampler \<Rightarrow> int \<Rightarrow> video_reader \<Rightarrow> py_error + (8 word reduced \<times> printed list)" where
  "capture_variant each_bg_sampler total_frames vread =
     (case capture_samples each_bg_sampler vread
             (get_frame_indices each_bg_sampler total_frames) [] [] of
        (cropped_samples_list, out) \<Rightarrow>
          (case new_median_bg cropped_samples_list of
             Inl e \<Rightarrow> Inl e
           | Inr bg \<Rightarrow> Inr (bg, out)))"

text \<open>
  The outer loop: the results are appended in the order of the samplers; an exception other
  than the keyboard interrupt leaves the loop and the program.
\<close>

fun capture_loop ::
  "sampler list \<Rightarrow> int \<Rightarrow> video_reader \<Rightarrow> 8 word reduced list \<Rightarrow> printed list
     \<Rightarrow> py_error + (8 word reduced list \<times> printed list)" where
  "capture_loop [] total_frames vread median_bg_frames out = Inr (median_bg_frames, out)"
| "capture_loop (each_bg_sampler # rest) total_frames vread median_bg_frames out =
     (case capture_variant each_bg_sampler total_frames vread of
        Inl e \<Rightarrow> Inl e
      | Inr (bg, printed) \<Rightarrow>
          capture_loop rest total_frames vread (median_bg_frames @ [bg]) (out @ printed))"

subsection \<open>The save block\<close>

text \<open>
  A Python \<^verbatim>\<open>str\<close> is a list of characters; the model covers the code points below 256,
  which \<^verbatim>\<open>str.lower\<close> and \<^verbatim>\<open>str.strip\<close> map among themselves. Paths follow
  \<^verbatim>\<open>posixpath\<close>.
\<close>

text \<open>\<^verbatim>\<open>str.rfind\<close> of one character: the index of its last occurrence, or \<open>-1\<close>.\<close>

definition rfind :: "char \<Rightarrow> string \<Rightarrow> int" where
  "rfind c p =
     (if c \<in> set p then int (length p) - 1 - int (length (takeWhile (\<lambda>d. d \<noteq> c) (rev p)))
      else - 1)"

definition os_path_basename :: "string \<Rightarrow> string" where
  "os_path_basename p = drop (nat (rfind CHR ''/'' p + 1)) p"

text \<open>
  \<^verbatim>\<open>os.path.splitext\<close>: the split is at the last dot after the last separator, unless only
  dots stand between the separator and that dot.
\<close>

definition os_path_splitext :: "string \<Rightarrow> string \<times> string" where
  "os_path_splitext p =
     (let sepIndex = rfind CHR ''/'' p; dotIndex = rfind CHR ''.'' p
      in if sepIndex < dotIndex \<and>
            list_ex (\<lambda>c. c \<noteq> CHR ''.'') (drop (nat (sepIndex + 1)) (take (nat dotIndex) p))
         then (take (nat dotIndex) p, drop (nat dotIndex) p)
         else (p, []))"

text \<open>
  \<^verbatim>\<open>os.path.join\<close> of two components: an absolute second component replaces the first,
  and a separator is inserted unless the first is empty or ends with one.
\<close>

definition os_path_join :: "string \<Rightarrow> string \<Rightarrow> string" where
  "os_path_join a b =
     (if b \<noteq> [] \<and> hd b = CHR ''/'' then b
      else if a = [] \<or> last a = CHR ''/'' then a @ b
      else a @ ''/'' @ b)"

text \<open>
  The characters that \<^verbatim>\<open>str.strip()\<close> removes: tab to carriage return, the four
  separators \<open>0x1C\<close> to \<open>0x1F\<close>, the space, \<open>0x85\<close> and \<open>0xA0\<close>.
\<close>

definition py_isspace :: "char \<Rightarrow> bool" where
  "py_isspace c =
     (let n = (of_char c :: nat)
      in (9 \<le> n \<and> n \<le> 13) \<or> (28 \<le> n \<and> n \<le> 32) \<or> n = 133 \<or> n = 160)"

definition str_strip :: "string \<Rightarrow> string" where
  "str_strip s = rev (dropWhile py_isspace (rev (dropWhile py_isspace s)))"

text \<open>
  \<^verbatim>\<open>str.lower\<close>: the letters \<open>A\<close> to \<open>Z\<close> and the capital letters \<open>0xC0\<close> to
  \<open>0xDE\<close> (the multiplication sign \<open>0xD7\<close> apart) move up by 32.
\<close>

definition lower_char :: "char \<Rightarrow> char" where
  "lower_char c =
     (let n = (of_char c :: nat)
      in if (65 \<le> n \<and> n \<le> 90) \<or> (192 \<le> n \<and> n \<le> 222 \<and> n \<noteq> 215) then char_of (n + 32)
         else c)"

definition str_lower :: "string \<Rightarrow> string" where
  "str_lower s = map lower_char s"

text \<open>\<^verbatim>\<open>s.replace(" ", "_")\<close>.\<close>

definition replace_space_underscore :: "string \<Rightarrow> string" where
  "replace_space_underscore s = map (\<lambda>c. if c = CHR '' '' then CHR ''_'' else c) s"

text \<open>\<^verbatim>\<open>str\<close> of an integer, as \<^verbatim>\<open>format\<close> prints it in a \<^verbatim>\<open>{}\<close> field.\<close>

fun str_of_nat :: "nat \<Rightarrow> string" where
  "str_of_nat n =
     (if n < 10 then [char_of (48 + n)]
      else str_of_nat (n div 10) @ [char_of (48 + n mod 10)])"

definition str_of_int :: "int \<Rightarrow> string" where
  "str_of_int i = (if i < 0 then CHR ''-'' # str_of_nat (nat (- i)) else str_of_nat (nat i))"

definition video_name_only :: "string \<Rightarrow> string" where
  "video_name_only video_source =
     (let video_file_name = os_path_basename video_source;
          name = fst (os_path_splitext video_file_name)
      in replace_space_underscore (str_lower (str_strip name)))"

text \<open>
  \<open>abs_output\<close> is the value of \<^verbatim>\<open>os.path.abspath(ARG_OUTPUT)\<close>: the output folder made
  absolute against the working directory of the process.
\<close>

definition save_folder_path :: "string \<Rightarrow> string \<Rightarrow> string" where
  "save_folder_path abs_output video_source =
     os_path_join abs_output (video_name_only video_source)"

definition save_name :: "int \<times> int \<Rightarrow> string" where
  "save_name xy_shift =
     (case xy_shift of
        (x_shift, y_shift) \<Rightarrow> ''('' @ str_of_int x_shift @ '', '' @ str_of_int y_shift @ '').png'')"

definition save_path :: "string \<Rightarrow> string \<Rightarrow> sampler \<Rightarrow> string" where
  "save_path abs_output video_source each_bg_sampler =
     os_path_join (save_folder_path abs_output video_source)
       (save_name (get_xy_shift each_bg_sampler))"

text \<open>
  The sanitized base name as the specification words it: the base name without its extension,
  lowercased, every whitespace character replaced by an underscore.
\<close>

definition spec_sanitized_basename :: "string \<Rightarrow> string" where
  "spec_sanitized_basename video_source =
     map (\<lambda>c. if py_isspace c then CHR ''_'' else c)
       (str_lower (fst (os_path_splitext (os_path_basename video_source))))"

section \<open>Properties of the library operations\<close>

lemma np_random_rand_range:
  "0 \<le> fst (np_random_rand g) \<and> fst (np_random_rand g) < 1"
proof -
  have "(shd g mod 2 ^ 53) < (2 ^ 53 :: nat)" by simp
  then have "rat_of_nat (shd g mod 2 ^ 53) < rat_of_nat (2 ^ 53)"
    by (simp only: of_nat_less_iff)
  then show ?thesis by (simp add: np_random_rand_def)
qed

lemma np_random_rand_state: "snd (np_random_rand g) = stl g"
  by (simp add: np_random_rand_def)

lemma np_random_randint_range:
  assumes "np_random_randint low high g = Inr (v, g')"
  shows "low \<le> v \<and> v < high \<and> g' = stl g"
proof -
  from assms have hl: "low < high" and v: "v = low + int (shd g) mod (high - low)" and g: "g' = stl g"
    by (auto simp: np_random_randint_def split: if_splits)
  from hl have "0 \<le> int (shd g) mod (high - low)" and "int (shd g) mod (high - low) < high - low"
    by simp_all
  with v g show ?thesis by simp
qed

lemma np_linspace_closed:
  assumes "0 \<le> num"
  shows "np_linspace start stop num =
           Inr (map (\<lambda>i. start + rat_of_nat i * ((stop - start) / of_int (num - 1))) [0..<nat num])"
proof (cases "1 < num")
  case True
  let ?n = "nat num"
  let ?f = "\<lambda>i. start + rat_of_nat i * ((stop - start) / of_int (num - 1))"
  have last: "?f (?n - 1) = stop"
  proof -
    have "rat_of_nat (?n - 1) = of_int (num - 1)" using True by (simp add: of_nat_diff)
    moreover have "(of_int (num - 1) :: rat) \<noteq> 0" using True by simp
    ultimately show ?thesis by simp
  qed
  have "map ?f [0..<?n] ! (?n - 1) = stop"
    using True last by simp
  then have "(map ?f [0..<?n])[?n - 1 := stop] = map ?f [0..<?n]"
    by (metis list_update_id)
  moreover have "np_linspace start stop num = Inr ((map ?f [0..<?n])[?n - 1 := stop])"
    using True by (simp add: np_linspace_def Let_def comp_def add.commute)
  ultimately show ?thesis by simp
next
  case False
  with assms have "num = 0 \<or> num = 1" by arith
  then show ?thesis
    by (auto simp: np_linspace_def Let_def)
qed

lemma np_linspace_error: "num < 0 \<Longrightarrow> np_linspace start stop num = Inl ValueError"
  by (simp add: np_linspace_def)

lemma py_int_half: "0 \<le> x \<Longrightarrow> py_int (of_int x / 2) = x div 2"
  by (simp add: py_int_def floor_divide_of_int_eq [where ?'a = rat, of x 2, simplified])

section \<open>Properties of the sampler\<close>

lemma get_randomized_norm_sampling_indices_window:
  "get_randomized_norm_sampling_indices s g =
     (case np_linspace (earliest_norm_sample s g)
             (earliest_norm_sample s g + norm_sample_duration s g) (num_samples s) of
        Inl e \<Rightarrow> Inl e
      | Inr idxs \<Rightarrow> Inr (idxs, stl (stl g)))"
  by (simp add: get_randomized_norm_sampling_indices_def norm_sample_duration_def
      earliest_norm_sample_def Let_def split_def np_random_rand_state cong: sum.case_cong)

lemma get_randomized_norm_sampling_indices_closed:
  assumes "0 \<le> num_samples s"
  shows "get_randomized_norm_sampling_indices s g =
     Inr (map (\<lambda>i. earliest_norm_sample s g +
                   rat_of_nat i * (norm_sample_duration s g / of_int (num_samples s - 1)))
            [0..<nat (num_samples s)], stl (stl g))"
  by (simp add: get_randomized_norm_sampling_indices_window np_linspace_closed [OF assms])

lemma get_randomized_norm_sampling_indices_error:
  "num_samples s < 0 \<Longrightarrow> get_randomized_norm_sampling_indices s g = Inl ValueError"
  by (simp add: get_randomized_norm_sampling_indices_window np_linspace_error)

lemma norm_sample_duration_range:
  assumes "min_duration s \<le> max_duration s"
  shows "min_duration s \<le> norm_sample_duration s g \<and> norm_sample_duration s g \<le> max_duration s"
proof -
  let ?r = "fst (np_random_rand g)"
  let ?w = "max_duration s - min_duration s"
  have r: "0 \<le> ?r" "?r \<le> 1" using np_random_rand_range [of g] by simp_all
  have w: "0 \<le> ?w" using assms by simp
  have "0 \<le> ?w * ?r" using w r by simp
  moreover have "?w * ?r \<le> ?w * 1" using w r by (intro mult_left_mono) simp_all
  ultimately show ?thesis by (simp add: norm_sample_duration_def)
qed

lemma sampling_window_range:
  assumes "0 \<le> min_duration s" "min_duration s \<le> max_duration s" "max_duration s \<le> 1"
  shows "0 \<le> norm_sample_duration s g \<and> 0 \<le> earliest_norm_sample s g \<and>
         earliest_norm_sample s g + norm_sample_duration s g \<le> 1"
proof -
  let ?d = "norm_sample_duration s g"
  let ?r = "fst (np_random_rand (snd (np_random_rand g)))"
  have d: "0 \<le> ?d" "?d \<le> 1" using norm_sample_duration_range [OF assms(2), of g] assms by simp_all
  have r: "0 \<le> ?r" "?r \<le> 1" using np_random_rand_range [of "snd (np_random_rand g)"] by simp_all
  have e0: "0 \<le> (1 - ?d) * ?r" using d r by simp
  have "(1 - ?d) * ?r \<le> (1 - ?d) * 1" using d r by (intro mult_left_mono) simp_all
  then have "(1 - ?d) * ?r + ?d \<le> 1" by simp
  with e0 d show ?thesis by (simp add: earliest_norm_sample_def)
qed

lemma full_duration_window:
  assumes "min_duration s = 1" "max_duration s = 1"
  shows "norm_sample_duration s g = 1 \<and> earliest_norm_sample s g = 0"
  using assms by (simp add: norm_sample_duration_def earliest_norm_sample_def)

lemma get_randomized_crop_coords_Inr:
  assumes "get_randomized_crop_coords s g = Inr ((y1, y2, x1, x2), g')"
  shows "0 \<le> x1 \<and> x1 \<le> max_x_shift s \<and> 0 \<le> y1 \<and> y1 \<le> max_y_shift s \<and>
         x2 = x1 + (video_width s - max_x_shift s) \<and>
         y2 = y1 + (video_height s - max_y_shift s) \<and> g' = stl (stl g)"
proof -
  from assms obtain ga where
    x: "np_random_randint 0 (max_x_shift s + 1) g = Inr (x1, ga)" and
    y: "np_random_randint 0 (max_y_shift s + 1) ga = Inr (y1, g')" and
    x2: "x2 = x1 + (video_width s - max_x_shift s)" and
    y2: "y2 = y1 + (video_height s - max_y_shift s)"
    by (auto simp: get_randomized_crop_coords_def Let_def split: sum.splits)
  from np_random_randint_range [OF x] np_random_randint_range [OF y] x2 y2
  show ?thesis by simp
qed

lemma Randomized_Frame_Sampler_Inr:
  assumes "Randomized_Frame_Sampler (vw, vh) (mx, my) (d1, d2) n g = Inr (s, g')"
  shows "video_width s = vw \<and> video_height s = vh \<and> max_x_shift s = mx \<and> max_y_shift s = my \<and>
         min_duration s = min d1 d2 \<and> max_duration s = max d1 d2 \<and> num_samples s = n \<and>
         0 \<le> n \<and>
         (\<exists>ga. get_randomized_crop_coords s g = Inr (crop_y1y2x1x2 s, ga) \<and>
               get_randomized_norm_sampling_indices s ga = Inr (norm_sample_idxs s, g'))"
proof -
  let ?s0 = "\<lparr> video_width = vw, video_height = vh, max_x_shift = mx, max_y_shift = my,
               min_duration = min d1 d2, max_duration = max d1 d2, num_samples = n,
               crop_y1y2x1x2 = (0, 0, 0, 0), norm_sample_idxs = [] \<rparr>"
  from assms obtain c ga idxs where
    c: "get_randomized_crop_coords ?s0 g = Inr (c, ga)" and
    i: "get_randomized_norm_sampling_indices (?s0\<lparr>crop_y1y2x1x2 := c\<rparr>) ga = Inr (idxs, g')" and
    s: "s = ?s0\<lparr>crop_y1y2x1x2 := c, norm_sample_idxs := idxs\<rparr>"
    by (auto simp: Randomized_Frame_Sampler_def Let_def split: sum.splits)
  have n: "0 \<le> n"
  proof (rule ccontr)
    assume "\<not> 0 \<le> n"
    then have "get_randomized_norm_sampling_indices (?s0\<lparr>crop_y1y2x1x2 := c\<rparr>) ga = Inl ValueError"
      by (intro get_randomized_norm_sampling_indices_error) simp
    with i show False by simp
  qed
  have c': "get_randomized_crop_coords s g = Inr (c, ga)"
    using c by (simp add: s get_randomized_crop_coords_def split_def cong: sum.case_cong)
  have i': "get_randomized_norm_sampling_indices s ga = Inr (idxs, g')"
    using i by (simp add: s get_randomized_norm_sampling_indices_window
        earliest_norm_sample_def norm_sample_duration_def)
  show ?thesis using n c' i' by (simp add: s)
qed

lemma disable_random_sample_timing_closed:
  assumes "0 \<le> num_samples s"
  shows "disable_random_sample_timing s g =
     Inr (s\<lparr>min_duration := 1, max_duration := 1,
             norm_sample_idxs :=
               map (\<lambda>i. rat_of_nat i / of_int (num_samples s - 1)) [0..<nat (num_samples s)]\<rparr>,
          stl (stl g))"
proof -
  let ?s1 = "s\<lparr>min_duration := 1, max_duration := 1\<rparr>"
  have n: "0 \<le> num_samples ?s1" using assms by simp
  have w: "norm_sample_duration ?s1 g = 1" "earliest_norm_sample ?s1 g = 0"
    using full_duration_window [of ?s1 g] by simp_all
  show ?thesis
    by (simp add: disable_random_sample_timing_def Let_def
        get_randomized_norm_sampling_indices_closed [OF n] w)
qed

lemma disable_random_sample_timing_error:
  "num_samples s < 0 \<Longrightarrow> disable_random_sample_timing s g = Inl ValueError"
  by (simp add: disable_random_sample_timing_def Let_def get_randomized_norm_sampling_indices_error)

lemma disable_random_sample_timing_Inr:
  assumes "disable_random_sample_timing s g = Inr (s', g')"
  shows "0 \<le> num_samples s \<and>
         s' = s\<lparr>min_duration := 1, max_duration := 1,
                 norm_sample_idxs :=
                   map (\<lambda>i. rat_of_nat i / of_int (num_samples s - 1)) [0..<nat (num_samples s)]\<rparr> \<and>
         g' = stl (stl g)"
proof (cases "0 \<le> num_samples s")
  case True
  with assms disable_random_sample_timing_closed [OF True, of g] show ?thesis by simp
next
  case False
  then have "disable_random_sample_timing s g = Inl ValueError"
    by (intro disable_random_sample_timing_error) simp
  with assms show ?thesis by simp
qed

lemma py_int_half_bounds:
  assumes "0 \<le> x"
  shows "0 \<le> py_int (of_int x / 2) \<and> py_int (of_int x / 2) \<le> x"
  using assms by (simp add: py_int_half)

lemma samplers_invariant:
  assumes "s \<in> samplers"
  shows "0 \<le> max_x_shift s \<and> 0 \<le> max_y_shift s \<and> 0 \<le> num_samples s \<and>
         min_duration s \<le> max_duration s \<and>
         length (norm_sample_idxs s) = nat (num_samples s) \<and>
         (case crop_y1y2x1x2 s of
            (y1, y2, x1, x2) \<Rightarrow>
              0 \<le> x1 \<and> x1 \<le> max_x_shift s \<and> 0 \<le> y1 \<and> y1 \<le> max_y_shift s \<and>
              x2 = x1 + (video_width s - max_x_shift s) \<and>
              y2 = y1 + (video_height s - max_y_shift s))"
  using assms
proof (induction rule: samplers.induct)
  case (constructed video_wh max_shift_xy min_max_sampling_duration n g s g')
  obtain vw vh mx my d1 d2 where
    args: "video_wh = (vw, vh)" "max_shift_xy = (mx, my)" "min_max_sampling_duration = (d1, d2)"
    by (cases video_wh, cases max_shift_xy, cases min_max_sampling_duration) auto
  from Randomized_Frame_Sampler_Inr [OF constructed [unfolded args]]
  obtain ga where
    f: "max_x_shift s = mx" "max_y_shift s = my" "min_duration s = min d1 d2"
       "max_duration s = max d1 d2" "num_samples s = n" "0 \<le> n" and
    c: "get_randomized_crop_coords s g = Inr (crop_y1y2x1x2 s, ga)" and
    i: "get_randomized_norm_sampling_indices s ga = Inr (norm_sample_idxs s, g')"
    by blast
  obtain y1 y2 x1 x2 where r: "crop_y1y2x1x2 s = (y1, y2, x1, x2)"
    by (cases "crop_y1y2x1x2 s") auto
  note cc = get_randomized_crop_coords_Inr [OF c [unfolded r]]
  have n: "0 \<le> num_samples s" using f by simp
  have len: "length (norm_sample_idxs s) = nat (num_samples s)"
  proof -
    from i have "norm_sample_idxs s =
        map (\<lambda>i. earliest_norm_sample s ga +
               rat_of_nat i * (norm_sample_duration s ga / of_int (num_samples s - 1)))
          [0..<nat (num_samples s)]"
      unfolding get_randomized_norm_sampling_indices_closed [OF n]
      by (simp only: sum.inject prod.inject)
    then have "length (norm_sample_idxs s) = length [0..<nat (num_samples s)]"
      by (simp only: length_map)
    then show ?thesis by simp
  qed
  from cc have "0 \<le> max_x_shift s" "0 \<le> max_y_shift s" by linarith+
  with cc n len f show ?case by (simp add: r)
next
  case (shift_disabled s)
  then show ?case
    by (simp add: disable_random_shift_def Let_def py_int_half_bounds)
next
  case (timing_disabled s g s' g')
  from disable_random_sample_timing_Inr [OF timing_disabled.hyps(2)] timing_disabled.IH
  show ?case by (auto simp: split_def)
qed

subsection \<open>The crop rectangle\<close>

text \<open>
  Claim C2. A sampler constructed with \<open>max_x_shift \<le> video_width\<close> and
  \<open>max_y_shift \<le> video_height\<close> has a crop rectangle \<open>(y1, y2, x1, x2)\<close> of height
  \<open>video_height - max_y_shift\<close> and width \<open>video_width - max_x_shift\<close>, with
  \<open>0 \<le> x1 \<le> max_x_shift\<close> and \<open>0 \<le> y1 \<le> max_y_shift\<close>, that lies within the frame
  (\<open>x2 \<le> video_width\<close>, \<open>y2 \<le> video_height\<close>): for the randomized rectangle of the
  constructor, whatever the draws, and for the centered rectangle of
  \<^verbatim>\<open>disable_random_shift\<close>. That the shifts are not negative follows from the construction:
  the constructor raises otherwise.
\<close>

theorem crop_rectangle_within_frame:
  assumes "Randomized_Frame_Sampler (vw, vh) (mx, my) min_max_sampling_duration n g = Inr (s, g')"
      and "mx \<le> vw" and "my \<le> vh"
  shows "(case crop_y1y2x1x2 s of
            (y1, y2, x1, x2) \<Rightarrow>
              y2 - y1 = vh - my \<and> x2 - x1 = vw - mx \<and>
              0 \<le> x1 \<and> x1 \<le> mx \<and> 0 \<le> y1 \<and> y1 \<le> my \<and> x2 \<le> vw \<and> y2 \<le> vh) \<and>
         (case crop_y1y2x1x2 (disable_random_shift s) of
            (y1, y2, x1, x2) \<Rightarrow>
              y2 - y1 = vh - my \<and> x2 - x1 = vw - mx \<and>
              0 \<le> x1 \<and> x1 \<le> mx \<and> 0 \<le> y1 \<and> y1 \<le> my \<and> x2 \<le> vw \<and> y2 \<le> vh)"
proof -
  obtain d1 d2 where d: "min_max_sampling_duration = (d1, d2)"
    by (cases min_max_sampling_duration) auto
  from Randomized_Frame_Sampler_Inr [OF assms(1) [unfolded d]]
  have f: "video_width s = vw" "video_height s = vh" "max_x_shift s = mx" "max_y_shift s = my"
    by simp_all
  have "s \<in> samplers" using assms(1) by (rule samplers.constructed)
  then have inv1: "s \<in> samplers" and inv2: "disable_random_shift s \<in> samplers"
    by (auto intro: samplers.shift_disabled)
  have f': "video_width (disable_random_shift s) = vw" "video_height (disable_random_shift s) = vh"
    "max_x_shift (disable_random_shift s) = mx" "max_y_shift (disable_random_shift s) = my"
    using f by (simp_all add: disable_random_shift_def Let_def)
  from samplers_invariant [OF inv1] f assms(2,3)
  have a: "(case crop_y1y2x1x2 s of
            (y1, y2, x1, x2) \<Rightarrow>
              y2 - y1 = vh - my \<and> x2 - x1 = vw - mx \<and>
              0 \<le> x1 \<and> x1 \<le> mx \<and> 0 \<le> y1 \<and> y1 \<le> my \<and> x2 \<le> vw \<and> y2 \<le> vh)"
    by (auto simp: split_def)
  from samplers_invariant [OF inv2] f' assms(2,3)
  have b: "(case crop_y1y2x1x2 (disable_random_shift s) of
            (y1, y2, x1, x2) \<Rightarrow>
              y2 - y1 = vh - my \<and> x2 - x1 = vw - mx \<and>
              0 \<le> x1 \<and> x1 \<le> mx \<and> 0 \<le> y1 \<and> y1 \<le> my \<and> x2 \<le> vw \<and> y2 \<le> vh)"
    by (auto simp: split_def)
  from a b show ?thesis by blast
qed

text \<open>
  The scenario of the specification: a 640 by 480 video, shifts of at most 100, five samples
  over the full duration. With every raw draw equal to 250 the constructor yields the
  rectangle \<open>(48, 428, 48, 588)\<close>; the centered rectangle is \<open>(50, 430, 50, 590)\<close>.
\<close>

lemma demo_sampler:
  "Randomized_Frame_Sampler (640, 480) (100, 100) (1, 1) 5 (sconst 250) =
     Inr (\<lparr> video_width = 640, video_height = 480, max_x_shift = 100, max_y_shift = 100,
            min_duration = 1, max_duration = 1, num_samples = 5,
            crop_y1y2x1x2 = (48, 428, 48, 588),
            norm_sample_idxs = [0, 1 / 4, 1 / 2, 3 / 4, 1] \<rparr>, sconst 250)"
  by (simp add: Randomized_Frame_Sampler_def get_randomized_crop_coords_def
      get_randomized_norm_sampling_indices_def np_random_randint_def np_random_rand_def
      np_linspace_def Let_def upt_conv_Cons)

theorem crop_rectangle_within_frame_witness:
  "Randomized_Frame_Sampler (640, 480) (100, 100) (1, 1) 5 (sconst 250) =
     Inr (\<lparr> video_width = 640, video_height = 480, max_x_shift = 100, max_y_shift = 100,
            min_duration = 1, max_duration = 1, num_samples = 5,
            crop_y1y2x1x2 = (48, 428, 48, 588),
            norm_sample_idxs = [0, 1 / 4, 1 / 2, 3 / 4, 1] \<rparr>, sconst 250) \<and>
   (100 :: int) \<le> 640 \<and> (100 :: int) \<le> 480 \<and>
   (428 :: int) - 48 = 480 - 100 \<and> (588 :: int) - 48 = 640 - 100 \<and> (588 :: int) \<le> 640 \<and>
   crop_y1y2x1x2 (disable_random_shift
       \<lparr> video_width = 640, video_height = 480, max_x_shift = 100, max_y_shift = 100,
         min_duration = 1, max_duration = 1, num_samples = 5,
         crop_y1y2x1x2 = (48, 428, 48, 588),
         norm_sample_idxs = [0, 1 / 4, 1 / 2, 3 / 4, 1] \<rparr>) = (50, 430, 50, 590)"
proof -
  note c = demo_sampler
  have h: "(100 :: int) \<le> 640" "(100 :: int) \<le> 480" by simp_all
  from crop_rectangle_within_frame [OF c h] c show ?thesis
    by (simp add: disable_random_shift_def Let_def py_int_def)
qed

subsection \<open>Centering the crop\<close>

lemma demo_sampler_in_samplers:
  "\<lparr> video_width = 640, video_height = 480, max_x_shift = 100, max_y_shift = 100,
     min_duration = 1, max_duration = 1, num_samples = 5,
     crop_y1y2x1x2 = (48, 428, 48, 588),
     norm_sample_idxs = [0, 1 / 4, 1 / 2, 3 / 4, 1] \<rparr> \<in> samplers"
  by (rule samplers.constructed [OF demo_sampler])



subsection \<open>Sampling over the full duration\<close>


text \<open>
  A sampler with a randomized window: durations between a quarter and the whole, three
  samples, every raw draw equal to \<open>2^52\<close> (so that \<^verbatim>\<open>np.random.rand()\<close> is one half
  and the crop offsets are \<open>2^52 mod 101 = 97\<close>).
\<close>

lemma random_sampler:
  "Randomized_Frame_Sampler (640, 480) (100, 100) (1, 1 / 4) 3 (sconst (2 ^ 52)) =
     Inr (\<lparr> video_width = 640, video_height = 480, max_x_shift = 100, max_y_shift = 100,
            min_duration = 1 / 4, max_duration = 1, num_samples = 3,
            crop_y1y2x1x2 = (97, 477, 97, 637),
            norm_sample_idxs = [3 / 16, 1 / 2, 13 / 16] \<rparr>, sconst (2 ^ 52))"
  by (simp add: Randomized_Frame_Sampler_def get_randomized_crop_coords_def
      get_randomized_norm_sampling_indices_def np_random_randint_def np_random_rand_def
      np_linspace_def Let_def upt_conv_Cons)

lemma random_sampler_in_samplers:
  "\<lparr> video_width = 640, video_height = 480, max_x_shift = 100, max_y_shift = 100,
     min_duration = 1 / 4, max_duration = 1, num_samples = 3,
     crop_y1y2x1x2 = (97, 477, 97, 637),
     norm_sample_idxs = [3 / 16, 1 / 2, 13 / 16] \<rparr> \<in> samplers"
  by (rule samplers.constructed [OF random_sampler])


subsection \<open>What a method call changes\<close>

text \<open>
  Claim C8. Of the public methods only the two mutators change a sampler.
  \<^verbatim>\<open>disable_random_shift\<close> changes the crop rectangle and nothing else: the positions, the
  duration bounds and the construction parameters stay. \<^verbatim>\<open>disable_random_sample_timing\<close>
  changes the duration bounds and the positions and nothing else: the crop rectangle and the
  construction parameters stay. \<^verbatim>\<open>crop\<close>, \<^verbatim>\<open>get_xy_shift\<close> and
  \<^verbatim>\<open>get_frame_indices\<close> leave the sampler as it is.
\<close>

theorem only_disable_operations_mutate:
  assumes "call_method c s g = Inr (v, s', g')"
  shows "case c of
           Call_disable_random_shift \<Rightarrow>
             s' = s\<lparr>crop_y1y2x1x2 := crop_y1y2x1x2 s'\<rparr> \<and>
             norm_sample_idxs s' = norm_sample_idxs s \<and>
             min_duration s' = min_duration s \<and> max_duration s' = max_duration s \<and>
             video_width s' = video_width s \<and> video_height s' = video_height s \<and>
             max_x_shift s' = max_x_shift s \<and> max_y_shift s' = max_y_shift s \<and>
             num_samples s' = num_samples s
         | Call_disable_random_sample_timing \<Rightarrow>
             s' = s\<lparr>min_duration := min_duration s', max_duration := max_duration s',
                     norm_sample_idxs := norm_sample_idxs s'\<rparr> \<and>
             crop_y1y2x1x2 s' = crop_y1y2x1x2 s \<and>
             video_width s' = video_width s \<and> video_height s' = video_height s \<and>
             max_x_shift s' = max_x_shift s \<and> max_y_shift s' = max_y_shift s \<and>
             num_samples s' = num_samples s
         | Call_crop frame \<Rightarrow> s' = s
         | Call_get_xy_shift \<Rightarrow> s' = s
         | Call_get_frame_indices total_video_frames \<Rightarrow> s' = s"
proof (cases c)
  case Call_disable_random_shift
  with assms have "s' = disable_random_shift s" by simp
  then show ?thesis
    by (simp add: Call_disable_random_shift disable_random_shift_def Let_def)
next
  case Call_disable_random_sample_timing
  with assms have "disable_random_sample_timing s g = Inr (s', g')"
    by (simp split: sum.splits)
  from disable_random_sample_timing_Inr [OF this] show ?thesis
    by (simp add: Call_disable_random_sample_timing)
next
  case (Call_crop frame)
  with assms show ?thesis by simp
next
  case Call_get_xy_shift
  with assms show ?thesis by simp
next
  case (Call_get_frame_indices total_video_frames)
  with assms show ?thesis by simp
qed

theorem only_disable_operations_mutate_witness:
  "call_method Call_disable_random_sample_timing
     \<lparr> video_width = 640, video_height = 480, max_x_shift = 100, max_y_shift = 100,
       min_duration = 1 / 4, max_duration = 1, num_samples = 3,
       crop_y1y2x1x2 = (97, 477, 97, 637),
       norm_sample_idxs = [3 / 16, 1 / 2, 13 / 16] \<rparr> (sconst 5) =
     Inr (Returns_None,
          \<lparr> video_width = 640, video_height = 480, max_x_shift = 100, max_y_shift = 100,
            min_duration = 1, max_duration = 1, num_samples = 3,
            crop_y1y2x1x2 = (97, 477, 97, 637),
            norm_sample_idxs = [0, 1 / 2, 1] \<rparr>, sconst 5) \<and>
   crop_y1y2x1x2
     \<lparr> video_width = 640, video_height = 480, max_x_shift = 100, max_y_shift = 100,
       min_duration = 1, max_duration = 1, num_samples = 3,
       crop_y1y2x1x2 = (97, 477, 97, 637),
       norm_sample_idxs = [0, 1 / 2, 1] \<rparr> = (97, 477, 97, 637)"
proof -
  have c: "call_method Call_disable_random_sample_timing
     \<lparr> video_width = 640, video_height = 480, max_x_shift = 100, max_y_shift = 100,
       min_duration = 1 / 4, max_duration = 1, num_samples = 3,
       crop_y1y2x1x2 = (97, 477, 97, 637),
       norm_sample_idxs = [3 / 16, 1 / 2, 13 / 16] \<rparr> (sconst 5) =
     Inr (Returns_None,
          \<lparr> video_width = 640, video_height = 480, max_x_shift = 100, max_y_shift = 100,
            min_duration = 1, max_duration = 1, num_samples = 3,
            crop_y1y2x1x2 = (97, 477, 97, 637),
            norm_sample_idxs = [0, 1 / 2, 1] \<rparr>, sconst 5)"
    by (simp add: disable_random_sample_timing_closed upt_conv_Cons)
  from only_disable_operations_mutate [OF c] c show ?thesis by simp
qed

subsection \<open>A single sample\<close>

text \<open>
  Claim C10. A sampler constructed with \<open>num_samples = 1\<close> holds exactly one position, the
  start \<open>earliest_norm_sample\<close> of the randomized window (the generator has served the two
  crop draws when the window is drawn); it is not the midpoint of the window unless the window
  has length 0. After \<^verbatim>\<open>disable_random_sample_timing\<close> the single position is 0, and
  \<^verbatim>\<open>get_frame_indices\<close> returns \<open>[0]\<close> for every total frame count.
\<close>

theorem single_sample_is_window_start:
  assumes "Randomized_Frame_Sampler video_wh max_shift_xy min_max_sampling_duration 1 g = Inr (s, g')"
  shows "norm_sample_idxs s = [earliest_norm_sample s (stl (stl g))] \<and>
         (norm_sample_duration s (stl (stl g)) \<noteq> 0 \<longrightarrow>
            norm_sample_idxs s \<noteq>
              [earliest_norm_sample s (stl (stl g)) + norm_sample_duration s (stl (stl g)) / 2]) \<and>
         disable_random_sample_timing s g2 =
           Inr (s\<lparr>min_duration := 1, max_duration := 1, norm_sample_idxs := [0]\<rparr>, stl (stl g2)) \<and>
         get_frame_indices (s\<lparr>min_duration := 1, max_duration := 1, norm_sample_idxs := [0]\<rparr>)
           total_video_frames = [0]"
proof -
  obtain vw vh mx my d1 d2 where
    args: "video_wh = (vw, vh)" "max_shift_xy = (mx, my)" "min_max_sampling_duration = (d1, d2)"
    by (cases video_wh, cases max_shift_xy, cases min_max_sampling_duration) auto
  from Randomized_Frame_Sampler_Inr [OF assms [unfolded args]]
  obtain ga where n: "num_samples s = 1" and
    c: "get_randomized_crop_coords s g = Inr (crop_y1y2x1x2 s, ga)" and
    i: "get_randomized_norm_sampling_indices s ga = Inr (norm_sample_idxs s, g')"
    by blast
  obtain y1 y2 x1 x2 where r: "crop_y1y2x1x2 s = (y1, y2, x1, x2)"
    by (cases "crop_y1y2x1x2 s") auto
  from get_randomized_crop_coords_Inr [OF c [unfolded r]] have ga: "ga = stl (stl g)" by simp
  have n0: "0 \<le> num_samples s" using n by simp
  from i have p: "norm_sample_idxs s = [earliest_norm_sample s (stl (stl g))]"
    unfolding get_randomized_norm_sampling_indices_closed [OF n0] ga by (simp add: n)
  have t: "disable_random_sample_timing s g2 =
      Inr (s\<lparr>min_duration := 1, max_duration := 1, norm_sample_idxs := [0]\<rparr>, stl (stl g2))"
    by (simp add: disable_random_sample_timing_closed [OF n0] n)
  have f: "get_frame_indices (s\<lparr>min_duration := 1, max_duration := 1, norm_sample_idxs := [0]\<rparr>)
      total_video_frames = [0]"
    by (simp add: get_frame_indices_def np_round_def np_int32_def)
  from p t f show ?thesis by simp
qed

lemma single_sampler:
  "Randomized_Frame_Sampler (640, 480) (100, 100) (1, 1 / 4) 1 (sconst (2 ^ 52)) =
     Inr (\<lparr> video_width = 640, video_height = 480, max_x_shift = 100, max_y_shift = 100,
            min_duration = 1 / 4, max_duration = 1, num_samples = 1,
            crop_y1y2x1x2 = (97, 477, 97, 637),
            norm_sample_idxs = [3 / 16] \<rparr>, sconst (2 ^ 52))"
  by (simp add: Randomized_Frame_Sampler_def get_randomized_crop_coords_def
      get_randomized_norm_sampling_indices_def np_random_randint_def np_random_rand_def
      np_linspace_def Let_def upt_conv_Cons)

theorem single_sample_is_window_start_witness:
  "Randomized_Frame_Sampler (640, 480) (100, 100) (1, 1 / 4) 1 (sconst (2 ^ 52)) =
     Inr (\<lparr> video_width = 640, video_height = 480, max_x_shift = 100, max_y_shift = 100,
            min_duration = 1 / 4, max_duration = 1, num_samples = 1,
            crop_y1y2x1x2 = (97, 477, 97, 637),
            norm_sample_idxs = [3 / 16] \<rparr>, sconst (2 ^ 52)) \<and>
   earliest_norm_sample
     \<lparr> video_width = 640, video_height = 480, max_x_shift = 100, max_y_shift = 100,
       min_duration = 1 / 4, max_duration = 1, num_samples = 1,
       crop_y1y2x1x2 = (97, 477, 97, 637),
       norm_sample_idxs = [3 / 16] \<rparr> (sconst (2 ^ 52)) = 3 / 16 \<and>
   norm_sample_duration
     \<lparr> video_width = 640, video_height = 480, max_x_shift = 100, max_y_shift = 100,
       min_duration = 1 / 4, max_duration = 1, num_samples = 1,
       crop_y1y2x1x2 = (97, 477, 97, 637),
       norm_sample_idxs = [3 / 16] \<rparr> (sconst (2 ^ 52)) = 5 / 8 \<and>
   get_frame_indices
     \<lparr> video_width = 640, video_height = 480, max_x_shift = 100, max_y_shift = 100,
       min_duration = 1, max_duration = 1, num_samples = 1,
       crop_y1y2x1x2 = (97, 477, 97, 637),
       norm_sample_idxs = [0] \<rparr> 101 = [0]"
proof -
  note c = single_sampler
  from single_sample_is_window_start [OF c, of "sconst 3" 101] c show ?thesis
    by (simp add: earliest_norm_sample_def norm_sample_duration_def np_random_rand_def)
qed

subsection \<open>Rounding and the conversion to 32 bits\<close>

lemma np_round_of_int [simp]: "np_round (of_int k) = k"
  by (simp add: np_round_def)

lemma np_round_cases:
  "np_round x = \<lfloor>x\<rfloor> \<or> np_round x = \<lfloor>x\<rfloor> + 1"
  by (simp add: np_round_def Let_def)

lemma np_round_low: "x - of_int \<lfloor>x\<rfloor> < 1 / 2 \<Longrightarrow> np_round x = \<lfloor>x\<rfloor>"
  by (simp add: np_round_def Let_def)

lemma np_round_high: "1 / 2 < x - of_int \<lfloor>x\<rfloor> \<Longrightarrow> np_round x = \<lfloor>x\<rfloor> + 1"
  by (simp add: np_round_def Let_def)

lemma np_round_tie:
  "x - of_int \<lfloor>x\<rfloor> = 1 / 2 \<Longrightarrow> np_round x = (if even \<lfloor>x\<rfloor> then \<lfloor>x\<rfloor> else \<lfloor>x\<rfloor> + 1)"
  by (simp add: np_round_def Let_def)

lemma np_round_mono:
  assumes "x \<le> y"
  shows "np_round x \<le> np_round y"
proof (cases "\<lfloor>x\<rfloor> = \<lfloor>y\<rfloor>")
  case True
  let ?r = "x - of_int \<lfloor>x\<rfloor>" and ?r' = "y - of_int \<lfloor>y\<rfloor>"
  have rr: "?r \<le> ?r'" using assms True by simp
  consider "?r' < 1 / 2" | "1 / 2 < ?r" | "?r = 1 / 2" "?r' = 1 / 2" | "?r < 1 / 2" "1 / 2 \<le> ?r'"
     | "?r = 1 / 2" "1 / 2 < ?r'"
    using rr by linarith
  then show ?thesis
  proof cases
    case 1
    with rr have "?r < 1 / 2" by linarith
    with 1 True show ?thesis by (simp add: np_round_low)
  next
    case 2
    with rr have "1 / 2 < ?r'" by linarith
    with 2 True show ?thesis by (simp add: np_round_high)
  next
    case 3
    with True show ?thesis by (simp add: np_round_tie)
  next
    case 4
    then have "np_round x = \<lfloor>x\<rfloor>" by (simp add: np_round_low)
    moreover have "\<lfloor>y\<rfloor> \<le> np_round y" using np_round_cases [of y] by linarith
    ultimately show ?thesis using True by simp
  next
    case 5
    then have "np_round y = \<lfloor>y\<rfloor> + 1" by (simp add: np_round_high)
    moreover have "np_round x \<le> \<lfloor>x\<rfloor> + 1" using np_round_cases [of x] by linarith
    ultimately show ?thesis using True by simp
  qed
next
  case False
  with assms have "\<lfloor>x\<rfloor> < \<lfloor>y\<rfloor>" using floor_mono [OF assms] by linarith
  moreover have "np_round x \<le> \<lfloor>x\<rfloor> + 1" using np_round_cases [of x] by linarith
  moreover have "\<lfloor>y\<rfloor> \<le> np_round y" using np_round_cases [of y] by linarith
  ultimately show ?thesis by linarith
qed

lemma np_round_bounds:
  assumes "of_int a \<le> x" "x \<le> of_int b"
  shows "a \<le> np_round x \<and> np_round x \<le> b"
  using np_round_mono [OF assms(1)] np_round_mono [OF assms(2)] by simp

lemma np_round_nearest:
  "\<bar>of_int (np_round x) - x\<bar> \<le> 1 / 2 \<and>
   (\<bar>of_int (np_round x) - x\<bar> = 1 / 2 \<longrightarrow> even (np_round x))"
proof -
  let ?r = "x - of_int \<lfloor>x\<rfloor>"
  have r: "0 \<le> ?r" "?r < 1" by linarith+
  consider "?r < 1 / 2" | "1 / 2 < ?r" | "?r = 1 / 2" by linarith
  then show ?thesis
  proof cases
    case 1
    then have "np_round x = \<lfloor>x\<rfloor>" by (rule np_round_low)
    with 1 r show ?thesis by simp
  next
    case 2
    then have "np_round x = \<lfloor>x\<rfloor> + 1" by (rule np_round_high)
    with 2 r show ?thesis by simp
  next
    case 3
    from np_round_tie [OF 3] 3 show ?thesis by (auto split: if_splits)
  qed
qed

lemma sint_np_int32:
  assumes "- (2 ^ 31) \<le> i" "i < 2 ^ 31"
  shows "sint (np_int32 i) = i"
proof -
  have "sint (word_of_int i :: 32 word) = signed_take_bit (32 - 1) i"
    by (simp add: sint_sbintrunc' del: sint_sbintrunc)
  also have "\<dots> = i"
    using assms by (simp add: signed_take_bit_int_eq_self_iff)
  finally show ?thesis by (simp add: np_int32_def)
qed

lemma floor_divide_numeral_rat:
  "\<lfloor>numeral a / numeral b :: rat\<rfloor> = numeral a div numeral b"
  using floor_divide_of_int_eq [of "numeral a" "numeral b", where ?'a = rat] by simp

lemma floor_minus_divide_numeral_rat:
  "\<lfloor>- (numeral a / numeral b) :: rat\<rfloor> = - numeral a div numeral b"
  using floor_divide_of_int_eq [of "- numeral a" "numeral b", where ?'a = rat] by simp

lemma floor_minus_one_divide_numeral_rat:
  "\<lfloor>- (1 / numeral b) :: rat\<rfloor> = - 1 div numeral b"
  using floor_divide_of_int_eq [of "- 1" "numeral b", where ?'a = rat] by simp

lemma floor_one_divide_numeral_rat:
  "\<lfloor>1 / numeral b :: rat\<rfloor> = 1 div numeral b"
  using floor_divide_of_int_eq [of "1" "numeral b", where ?'a = rat] by simp

lemma floor_minus_one_rat: "\<lfloor>- 1 :: rat\<rfloor> = - 1"
  using floor_uminus_of_int [of 1, where ?'a = rat] by simp

lemmas floor_numeral_rat = floor_minus_one_rat
  floor_divide_numeral_rat floor_minus_divide_numeral_rat
  floor_minus_one_divide_numeral_rat floor_one_divide_numeral_rat

subsection \<open>Frame indices\<close>

text \<open>
  A sampler over the full duration with three samples: its positions are \<open>0\<close>, \<open>1/2\<close>
  and \<open>1\<close>.
\<close>

lemma full_sampler:
  "Randomized_Frame_Sampler (640, 480) (100, 100) (1, 1) 3 (sconst 250) =
     Inr (\<lparr> video_width = 640, video_height = 480, max_x_shift = 100, max_y_shift = 100,
            min_duration = 1, max_duration = 1, num_samples = 3,
            crop_y1y2x1x2 = (48, 428, 48, 588),
            norm_sample_idxs = [0, 1 / 2, 1] \<rparr>, sconst 250)"
  by (simp add: Randomized_Frame_Sampler_def get_randomized_crop_coords_def
      get_randomized_norm_sampling_indices_def np_random_randint_def np_random_rand_def
      np_linspace_def Let_def upt_conv_Cons)




subsection \<open>Positions and indices in range\<close>

lemma evenly_spaced_range:
  assumes "0 \<le> d"
  shows "sorted (map (\<lambda>i. e + rat_of_nat i * (d / of_int (n - 1))) [0..<nat n]) \<and>
         (\<forall>p \<in> set (map (\<lambda>i. e + rat_of_nat i * (d / of_int (n - 1))) [0..<nat n]).
            e \<le> p \<and> p \<le> e + d)"
proof -
  let ?step = "d / of_int (n - 1)"
  have step: "0 \<le> ?step" if "0 < nat n"
  proof -
    from that have "(0 :: rat) \<le> of_int (n - 1)" by simp
    with assms show ?thesis by simp
  qed
  have mono: "e + rat_of_nat i * ?step \<le> e + rat_of_nat j * ?step" if "i \<le> j" "j < nat n" for i j
  proof -
    from that have "rat_of_nat i \<le> rat_of_nat j" by simp
    then have "rat_of_nat i * ?step \<le> rat_of_nat j * ?step"
      using step that by (intro mult_right_mono) simp_all
    then show ?thesis by simp
  qed
  have srt: "sorted (map (\<lambda>i. e + rat_of_nat i * ?step) [0..<nat n])"
    unfolding sorted_iff_nth_mono using mono by simp
  have rng: "e \<le> e + rat_of_nat i * ?step \<and> e + rat_of_nat i * ?step \<le> e + d" if "i < nat n" for i
  proof -
    have "0 \<le> ?step" using step that by linarith
    then have lo: "0 \<le> rat_of_nat i * ?step" by (intro mult_nonneg_nonneg) simp_all
    have hi: "rat_of_nat i * ?step \<le> d"
    proof (cases "n = 1")
      case True
      with that have "i = 0" by simp
      with assms show ?thesis by simp
    next
      case False
      with that have n: "(0 :: rat) < of_int (n - 1)" by simp
      have "rat_of_nat i \<le> of_int (n - 1)"
      proof -
        from that have "int i \<le> n - 1" by simp
        then have "(of_int (int i) :: rat) \<le> of_int (n - 1)" by (simp only: of_int_le_iff)
        then show ?thesis by simp
      qed
      then have "rat_of_nat i * d \<le> of_int (n - 1) * d"
        using assms by (intro mult_right_mono) simp_all
      then have "rat_of_nat i * d / of_int (n - 1) \<le> d"
        using n by (simp add: pos_divide_le_eq mult.commute)
      then show ?thesis by simp
    qed
    from lo hi show ?thesis by simp
  qed
  from srt rng show ?thesis by auto
qed

lemma unit_spacing_range:
  "sorted (map (\<lambda>i. rat_of_nat i / of_int (n - 1)) [0..<nat n]) \<and>
   (\<forall>p \<in> set (map (\<lambda>i. rat_of_nat i / of_int (n - 1)) [0..<nat n]). 0 \<le> p \<and> p \<le> 1)"
proof -
  have f: "(\<lambda>i. 0 + rat_of_nat i * (1 / of_int (n - 1))) = (\<lambda>i. rat_of_nat i / of_int (n - 1))"
    by (rule ext) simp
  have z: "(0 :: rat) \<le> 1" "(0 :: rat) + 1 = 1" by simp_all
  from evenly_spaced_range [OF z(1), of 0 n] show ?thesis
    unfolding f z(2) .
qed

lemma get_randomized_norm_sampling_indices_range:
  assumes "get_randomized_norm_sampling_indices s g = Inr (idxs, g')"
      and "0 \<le> min_duration s" "min_duration s \<le> max_duration s" "max_duration s \<le> 1"
  shows "sorted idxs \<and> (\<forall>p \<in> set idxs. 0 \<le> p \<and> p \<le> 1)"
proof -
  have n: "0 \<le> num_samples s"
  proof (rule ccontr)
    assume "\<not> 0 \<le> num_samples s"
    then have "get_randomized_norm_sampling_indices s g = Inl ValueError"
      by (intro get_randomized_norm_sampling_indices_error) simp
    with assms(1) show False by simp
  qed
  let ?e = "earliest_norm_sample s g" and ?d = "norm_sample_duration s g"
  from assms(1) have idxs:
    "idxs = map (\<lambda>i. ?e + rat_of_nat i * (?d / of_int (num_samples s - 1))) [0..<nat (num_samples s)]"
    unfolding get_randomized_norm_sampling_indices_closed [OF n]
    by (simp only: sum.inject prod.inject)
  from sampling_window_range [OF assms(2-4), of g]
  have w: "0 \<le> ?d" "0 \<le> ?e" "?e + ?d \<le> 1" by simp_all
  from evenly_spaced_range [OF w(1), of ?e "num_samples s"]
  have srt: "sorted idxs" and rng: "\<forall>p \<in> set idxs. ?e \<le> p \<and> p \<le> ?e + ?d"
    unfolding idxs [symmetric] by blast+
  have "0 \<le> p \<and> p \<le> 1" if "p \<in> set idxs" for p
    using rng that w(2,3) by force
  with srt show ?thesis by blast
qed

lemma samplers_positions:
  assumes "s \<in> samplers"
  shows "0 \<le> min_duration s \<and> max_duration s \<le> 1 \<longrightarrow>
         sorted (norm_sample_idxs s) \<and> (\<forall>p \<in> set (norm_sample_idxs s). 0 \<le> p \<and> p \<le> 1)"
  using assms
proof (induction rule: samplers.induct)
  case (constructed video_wh max_shift_xy min_max_sampling_duration n g s g')
  obtain vw vh mx my d1 d2 where
    args: "video_wh = (vw, vh)" "max_shift_xy = (mx, my)" "min_max_sampling_duration = (d1, d2)"
    by (cases video_wh, cases max_shift_xy, cases min_max_sampling_duration) auto
  from Randomized_Frame_Sampler_Inr [OF constructed [unfolded args]]
  obtain ga where
    f: "min_duration s = min d1 d2" "max_duration s = max d1 d2" and
    i: "get_randomized_norm_sampling_indices s ga = Inr (norm_sample_idxs s, g')"
    by blast
  have le: "min_duration s \<le> max_duration s" using f by simp
  show ?case
  proof (intro impI)
    assume a: "0 \<le> min_duration s \<and> max_duration s \<le> 1"
    then have a1: "0 \<le> min_duration s" and a2: "max_duration s \<le> 1" by simp_all
    show "sorted (norm_sample_idxs s) \<and> (\<forall>p \<in> set (norm_sample_idxs s). 0 \<le> p \<and> p \<le> 1)"
      by (rule get_randomized_norm_sampling_indices_range [OF i a1 le a2])
  qed
next
  case (shift_disabled s)
  have e: "norm_sample_idxs (disable_random_shift s) = norm_sample_idxs s"
    "min_duration (disable_random_shift s) = min_duration s"
    "max_duration (disable_random_shift s) = max_duration s"
    by (simp_all add: disable_random_shift_def Let_def)
  show ?case unfolding e by (rule shift_disabled.IH)
next
  case (timing_disabled s g s' g')
  from disable_random_sample_timing_Inr [OF timing_disabled.hyps(2)]
  have "s' = s\<lparr>min_duration := 1, max_duration := 1,
                 norm_sample_idxs :=
                   map (\<lambda>i. rat_of_nat i / of_int (num_samples s - 1)) [0..<nat (num_samples s)]\<rparr>"
    by (rule conjunct1 [OF conjunct2])
  then have s': "norm_sample_idxs s' =
      map (\<lambda>i. rat_of_nat i / of_int (num_samples s - 1)) [0..<nat (num_samples s)]"
    by simp
  have "sorted (norm_sample_idxs s') \<and> (\<forall>p \<in> set (norm_sample_idxs s'). 0 \<le> p \<and> p \<le> 1)"
    unfolding s' by (rule unit_spacing_range)
  then show ?case by (rule impI)
qed




section \<open>Properties of the capture loop\<close>

lemma py_slice_map: "map h (py_slice a b xs) = py_slice a b (map h xs)"
  by (simp add: py_slice_def Let_def take_map drop_map)

lemma crop_shape:
  "map (map length) (crop s frame) =
     (case crop_y1y2x1x2 s of
        (crop_y1, crop_y2, crop_x1, crop_x2) \<Rightarrow>
          map (py_slice crop_x1 crop_x2) (py_slice crop_y1 crop_y2 (map (map length) frame)))"
proof -
  obtain y1 y2 x1 x2 where r: "crop_y1y2x1x2 s = (y1, y2, x1, x2)"
    by (cases "crop_y1y2x1x2 s") auto
  have "map (map length) (map (py_slice x1 x2) (py_slice y1 y2 frame)) =
        map (py_slice x1 x2) (map (map length) (py_slice y1 y2 frame))"
    by (simp add: py_slice_map comp_def)
  also have "\<dots> = map (py_slice x1 x2) (py_slice y1 y2 (map (map length) frame))"
    by (simp only: py_slice_map)
  finally show ?thesis by (simp add: crop_def r)
qed

lemma capture_samples_acc:
  "capture_samples s vread idxs acc out =
     (acc @ map (crop s) (List.map_filter (\<lambda>i. vread (sint i)) idxs),
      out @ map Error_reading_frame_Skipping (filter (\<lambda>i. vread (sint i) = None) idxs))"
proof (induction idxs arbitrary: acc out)
  case Nil
  show ?case by (simp add: List.map_filter_simps)
next
  case (Cons i idxs)
  show ?case
  proof (cases "vread (sint i)")
    case None
    then show ?thesis by (simp add: Cons.IH List.map_filter_simps)
  next
    case (Some frame)
    then show ?thesis by (simp add: Cons.IH List.map_filter_simps)
  qed
qed

lemma median_1d_bounds:
  assumes "xs \<noteq> []" "\<forall>x \<in> set xs. lo \<le> x \<and> x \<le> hi"
  shows "lo \<le> median_1d xs \<and> median_1d xs \<le> hi"
proof -
  let ?p = "sort xs" and ?n = "length xs"
  have n: "0 < ?n" using assms(1) by simp
  have el: "lo \<le> ?p ! k \<and> ?p ! k \<le> hi" if "k < ?n" for k
  proof -
    from that have "?p ! k \<in> set ?p" by (intro nth_mem) simp
    then have "?p ! k \<in> set xs" by simp
    with assms(2) show ?thesis by blast
  qed
  have a: "?n div 2 < ?n" using n by simp
  have b: "?n div 2 - 1 < ?n" using n by linarith
  from el [OF a] el [OF b] show ?thesis
    by (simp add: median_1d_def Let_def)
qed

lemma median_1d_three_equal: "median_1d [v, v, v] = v"
  by (simp add: median_1d_def Let_def)

lemma np_uint8_in_range:
  assumes "0 \<le> i" "i \<le> 255"
  shows "int (unat (np_uint8 i)) = i"
proof -
  have "uint (word_of_int i :: 8 word) = take_bit 8 i"
    by (simp add: uint_word_of_int_eq)
  also have "\<dots> = i"
    using assms by (simp add: take_bit_int_eq_self)
  finally show ?thesis by (simp add: np_uint8_def)
qed

lemma np_uint8_of_unat: "np_uint8 (np_round (of_nat (unat v))) = v"
proof -
  have "np_round (rat_of_nat (unat v)) = np_round (of_int (int (unat v)))" by simp
  also have "\<dots> = int (unat v)" by (rule np_round_of_int)
  finally show ?thesis by (simp add: np_uint8_def)
qed

lemma u8_pixel_range: "0 \<le> rat_of_nat (unat w) \<and> rat_of_nat (unat w) \<le> 255" for w :: "8 word"
proof -
  have "unat w < 2 ^ LENGTH(8)" by (rule unsigned_less)
  then have "unat w \<le> 255" by simp
  then have b: "rat_of_nat (unat w) \<le> rat_of_nat 255"
    by (simp only: of_nat_le_iff)
  have a: "(0 :: rat) \<le> of_nat (unat w)" by (rule of_nat_0_le_iff)
  have c: "rat_of_nat 255 = 255" by (rule of_nat_numeral)
  from a b show ?thesis unfolding c by (rule conjI)
qed

lemma map_upt_nth: "map (\<lambda>i. h (xs ! i)) [0..<length xs] = map h xs"
proof -
  have "map (\<lambda>i. h (xs ! i)) [0..<length xs] = map h (map (\<lambda>i. xs ! i) [0..<length xs])"
    by (simp add: comp_def)
  then show ?thesis by (simp only: map_nth)
qed

lemma sample_pixels_in_range:
  assumes "fs \<noteq> []"
  shows "0 \<le> median_1d (map (\<lambda>f. of_nat (unat ((f :: frame) ! y ! x ! c))) fs) \<and>
         median_1d (map (\<lambda>f. of_nat (unat (f ! y ! x ! c))) fs) \<le> 255"
proof (rule median_1d_bounds)
  show "map (\<lambda>f. rat_of_nat (unat (f ! y ! x ! c))) fs \<noteq> []"
    using assms by (simp only: map_is_Nil_conv not_False_eq_True)
  show "\<forall>v \<in> set (map (\<lambda>f. rat_of_nat (unat (f ! y ! x ! c))) fs). 0 \<le> v \<and> v \<le> 255"
  proof
    fix v assume "v \<in> set (map (\<lambda>f. rat_of_nat (unat (f ! y ! x ! c))) fs)"
    then have "v \<in> (\<lambda>f. rat_of_nat (unat (f ! y ! x ! c))) ` set fs" by (simp only: set_map)
    then obtain f :: frame where "v = rat_of_nat (unat (f ! y ! x ! c))" by (elim imageE)
    then show "0 \<le> v \<and> v \<le> 255" by (simp only: u8_pixel_range)
  qed
qed

lemma new_median_bg_Array:
  assumes "fs \<noteq> []" "\<forall>f \<in> set fs. map (map length) f = map (map length) (hd fs)"
  shows "new_median_bg fs =
     Inr (Array
        (map (\<lambda>y. map (\<lambda>x. map (\<lambda>c. np_uint8 (np_round
                       (median_1d (map (\<lambda>f. of_nat (unat (f ! y ! x ! c))) fs))))
                              [0..<length (hd fs ! y ! x)])
                    [0..<length (hd fs ! y)])
             [0..<length (hd fs)]))"
proof -
  have ne: "(fs = []) = False" using assms(1) by simp
  have sh: "(\<exists>f \<in> set fs. map (map length) f \<noteq> map (map length) (hd fs)) = False"
    using assms(2) by blast
  have m: "np_median_axis0 fs =
      Inr (Array
        (map (\<lambda>y. map (\<lambda>x. map (\<lambda>c. median_1d (map (\<lambda>f. of_nat (unat (f ! y ! x ! c))) fs))
                              [0..<length (hd fs ! y ! x)])
                    [0..<length (hd fs ! y)])
             [0..<length (hd fs)]))"
    unfolding np_median_axis0_def ne sh by (simp only: if_False)
  show ?thesis
    unfolding new_median_bg_def m
    by (simp only: sum.case np_uint8_round.simps map_map comp_def)
qed

lemma new_median_bg_pixels:
  assumes "fs \<noteq> []" "\<forall>f \<in> set fs. map (map length) f = map (map length) (hd fs)"
  shows "\<exists>img. new_median_bg fs = Inr (Array img) \<and>
           map (map length) img = map (map length) (hd fs) \<and>
           (\<forall>y x c. y < length img \<longrightarrow> x < length (img ! y) \<longrightarrow> c < length (img ! y ! x) \<longrightarrow>
              int (unat (img ! y ! x ! c)) =
                max 0 (min 255 (np_round (median_1d (map (\<lambda>f. of_nat (unat (f ! y ! x ! c))) fs)))))"
proof -
  define m where "m = (\<lambda>y x c. median_1d (map (\<lambda>f. of_nat (unat ((f :: frame) ! y ! x ! c))) fs))"
  define px where "px = (\<lambda>y x c. np_uint8 (np_round (m y x c)))"
  define img where "img = map (\<lambda>y. map (\<lambda>x. map (\<lambda>c. px y x c) [0..<length (hd fs ! y ! x)])
                    [0..<length (hd fs ! y)]) [0..<length (hd fs)]"
  have r: "new_median_bg fs = Inr (Array img)"
    unfolding img_def px_def m_def by (rule new_median_bg_Array [OF assms])
  have l0: "length img = length (hd fs)" by (simp add: img_def)
  have l1: "length (img ! y) = length (hd fs ! y)" if "y < length (hd fs)" for y
    using that by (simp add: img_def)
  have l2: "length (img ! y ! x) = length (hd fs ! y ! x)"
    if "y < length (hd fs)" "x < length (hd fs ! y)" for y x
    using that by (simp add: img_def)
  have v: "img ! y ! x ! c = px y x c"
    if "y < length (hd fs)" "x < length (hd fs ! y)" "c < length (hd fs ! y ! x)" for y x c
    using that by (simp add: img_def)
  have sh: "map (map length) img = map (map length) (hd fs)"
  proof -
    have "map (map length) img =
        map (\<lambda>y. map (\<lambda>x. length (hd fs ! y ! x)) [0..<length (hd fs ! y)]) [0..<length (hd fs)]"
      by (simp add: img_def comp_def)
    also have "\<dots> = map (\<lambda>y. map length (hd fs ! y)) [0..<length (hd fs)]"
      by (simp only: map_upt_nth)
    also have "\<dots> = map (map length) (hd fs)"
      by (simp only: map_upt_nth)
    finally show ?thesis .
  qed
  have pxv: "int (unat (px y x c)) = max 0 (min 255 (np_round (m y x c)))" for y x c
  proof -
    from sample_pixels_in_range [OF assms(1), of y x c]
    have "of_int 0 \<le> m y x c" "m y x c \<le> of_int 255" by (simp_all add: m_def)
    from np_round_bounds [OF this]
    have b: "0 \<le> np_round (m y x c)" "np_round (m y x c) \<le> 255" by simp_all
    have "int (unat (px y x c)) = np_round (m y x c)"
      unfolding px_def by (rule np_uint8_in_range [OF b])
    also have "\<dots> = max 0 (min 255 (np_round (m y x c)))"
      using b by linarith
    finally show ?thesis .
  qed
  have all: "int (unat (img ! y ! x ! c)) = max 0 (min 255 (np_round (m y x c)))"
    if "y < length img" "x < length (img ! y)" "c < length (img ! y ! x)" for y x c
  proof -
    from that(1) have y: "y < length (hd fs)" by (simp only: l0)
    from that(2) have x: "x < length (hd fs ! y)" by (simp only: l1 [OF y])
    from that(3) have c: "c < length (hd fs ! y ! x)" by (simp only: l2 [OF y x])
    show ?thesis unfolding v [OF y x c] by (rule pxv)
  qed
  show ?thesis
  proof (intro exI conjI allI impI)
    show "new_median_bg fs = Inr (Array img)" by (rule r)
    show "map (map length) img = map (map length) (hd fs)" by (rule sh)
    fix y x c
    assume "y < length img" "x < length (img ! y)" "c < length (img ! y ! x)"
    then show "int (unat (img ! y ! x ! c)) =
        max 0 (min 255 (np_round (median_1d (map (\<lambda>f. of_nat (unat (f ! y ! x ! c))) fs))))"
      unfolding m_def [symmetric] by (rule all [unfolded m_def])
  qed
qed

lemma new_median_bg_three_equal: "new_median_bg [f, f, f] = Inr (Array f)"
proof -
  have e: "(\<forall>g \<in> set [f, f, f]. map (map length) g = map (map length) (hd [f, f, f]))"
    by simp
  have ne: "[f, f, f] \<noteq> []" by simp
  have px: "np_uint8 (np_round (median_1d (map (\<lambda>g. of_nat (unat (g ! y ! x ! c))) [f, f, f]))) =
            f ! y ! x ! c" for y x c
  proof -
    have "median_1d (map (\<lambda>g. rat_of_nat (unat (g ! y ! x ! c))) [f, f, f]) =
          rat_of_nat (unat (f ! y ! x ! c))"
      unfolding list.map by (rule median_1d_three_equal)
    then show ?thesis by (simp only: np_uint8_of_unat)
  qed
  have "new_median_bg [f, f, f] =
     Inr (Array
        (map (\<lambda>y. map (\<lambda>x. map (\<lambda>c. f ! y ! x ! c) [0..<length (f ! y ! x)])
                    [0..<length (f ! y)])
             [0..<length f]))"
    unfolding new_median_bg_Array [OF ne e] px list.sel ..
  also have "\<dots> = Inr (Array f)"
    by (simp only: map_nth)
  finally show ?thesis .
qed

subsection \<open>The median reduction\<close>


lemma two_frames_median:
  "new_median_bg [[[[1, 2, 3], [4, 5, 6]]], [[[3, 2, 1], [4, 9, 0]]]] =
     Inr (Array [[[2, 2, 2], [4, 7, 3]]])"
  by (simp add: new_median_bg_def np_median_axis0_def median_1d_def np_round_def np_uint8_def
      Let_def upt_conv_Cons floor_numeral_rat)


subsection \<open>Failed reads\<close>

lemma cropped_same_shape:
  fixes idxs :: "32 word list"
  assumes "\<forall>i f. vread i = Some f \<longrightarrow> map (map length) f = frame_shape"
      and "f \<in> set (map (crop s) (List.map_filter (\<lambda>i. vread (sint i)) idxs))"
  shows "map (map length) f =
           (case crop_y1y2x1x2 s of
              (crop_y1, crop_y2, crop_x1, crop_x2) \<Rightarrow>
                map (py_slice crop_x1 crop_x2) (py_slice crop_y1 crop_y2 frame_shape))"
proof -
  from assms(2) obtain fr and i :: "32 word" where fr: "vread (sint i) = Some fr" and c: "f = crop s fr"
    by (auto simp: List.map_filter_def)
  from assms(1) fr have "map (map length) fr = frame_shape" by blast
  then show ?thesis unfolding c crop_shape by (simp only:)
qed

lemma capture_variant_eq:
  "capture_variant s total_frames vread =
     (case new_median_bg
             (map (crop s) (List.map_filter (\<lambda>i. vread (sint i)) (get_frame_indices s total_frames))) of
        Inl e \<Rightarrow> Inl e
      | Inr bg \<Rightarrow>
          Inr (bg, map Error_reading_frame_Skipping
                     (filter (\<lambda>i. vread (sint i) = None) (get_frame_indices s total_frames))))"
  by (simp add: capture_variant_def capture_samples_acc)

lemma new_median_bg_empty: "new_median_bg [] = Inr Nan_scalar"
  by (simp add: new_median_bg_def np_median_axis0_def)

text \<open>
  Claim C1, as amended. In the pass of the capture loop for one sampler, a read that fails
  prints the warning and is skipped: the collected frames are the crops of the frames that
  were read, in order, and one warning is printed per failed read. When at least one frame was
  read (the frames of the video having one shape), the result is the image of the medians, at
  each row, column and channel, over the collected crops. When every read fails, the pass
  raises nothing: the empty collection goes to \<^verbatim>\<open>np.median\<close>, whose value is the NaN
  scalar, and the loop appends its conversion and goes on.
\<close>

theorem capture_variant_skips_failed_reads:
  "let idxs = get_frame_indices s total_frames;
       good = map (crop s) (List.map_filter (\<lambda>i. vread (sint i)) idxs);
       warnings = map Error_reading_frame_Skipping (filter (\<lambda>i. vread (sint i) = None) idxs)
   in capture_samples s vread idxs [] [] = (good, warnings) \<and>
      (good = [] \<longrightarrow> capture_variant s total_frames vread = Inr (Nan_scalar, warnings)) \<and>
      (good \<noteq> [] \<and> (\<forall>i f. vread i = Some f \<longrightarrow> map (map length) f = frame_shape) \<longrightarrow>
         (\<exists>img. capture_variant s total_frames vread = Inr (Array img, warnings) \<and>
            map (map length) img = map (map length) (hd good) \<and>
            (\<forall>y x c. y < length img \<longrightarrow> x < length (img ! y) \<longrightarrow> c < length (img ! y ! x) \<longrightarrow>
               int (unat (img ! y ! x ! c)) =
                 max 0 (min 255 (np_round (median_1d
                   (map (\<lambda>f. of_nat (unat (f ! y ! x ! c))) good)))))))"
proof -
  define idxs where "idxs = get_frame_indices s total_frames"
  define good where "good = map (crop s) (List.map_filter (\<lambda>i. vread (sint i)) idxs)"
  define warnings where
    "warnings = map Error_reading_frame_Skipping (filter (\<lambda>i. vread (sint i) = None) idxs)"
  have loop: "capture_samples s vread idxs [] [] = (good, warnings)"
    by (simp add: capture_samples_acc good_def warnings_def)
  have cv: "capture_variant s total_frames vread =
      (case new_median_bg good of Inl e \<Rightarrow> Inl e | Inr bg \<Rightarrow> Inr (bg, warnings))"
    unfolding good_def warnings_def idxs_def by (rule capture_variant_eq)
  have none: "capture_variant s total_frames vread = Inr (Nan_scalar, warnings)" if "good = []"
    unfolding cv that new_median_bg_empty by simp
  have some: "\<exists>img. capture_variant s total_frames vread = Inr (Array img, warnings) \<and>
            map (map length) img = map (map length) (hd good) \<and>
            (\<forall>y x c. y < length img \<longrightarrow> x < length (img ! y) \<longrightarrow> c < length (img ! y ! x) \<longrightarrow>
               int (unat (img ! y ! x ! c)) =
                 max 0 (min 255 (np_round (median_1d
                   (map (\<lambda>f. of_nat (unat (f ! y ! x ! c))) good)))))"
    if ne: "good \<noteq> []" and sh: "\<forall>i f. vread i = Some f \<longrightarrow> map (map length) f = frame_shape"
  proof -
    have one: "map (map length) f =
           (case crop_y1y2x1x2 s of
              (crop_y1, crop_y2, crop_x1, crop_x2) \<Rightarrow>
                map (py_slice crop_x1 crop_x2) (py_slice crop_y1 crop_y2 frame_shape))"
      if "f \<in> set good" for f
      using that unfolding good_def by (rule cropped_same_shape [OF sh])
    have "hd good \<in> set good" using ne by (rule hd_in_set)
    from one [OF this] one
    have same: "\<forall>f \<in> set good. map (map length) f = map (map length) (hd good)"
      by (simp only:) blast
    from new_median_bg_pixels [OF ne same] obtain img where
      r: "new_median_bg good = Inr (Array img)" and
      rest: "map (map length) img = map (map length) (hd good) \<and>
            (\<forall>y x c. y < length img \<longrightarrow> x < length (img ! y) \<longrightarrow> c < length (img ! y ! x) \<longrightarrow>
               int (unat (img ! y ! x ! c)) =
                 max 0 (min 255 (np_round (median_1d
                   (map (\<lambda>f. of_nat (unat (f ! y ! x ! c))) good)))))"
      by blast
    have "capture_variant s total_frames vread = Inr (Array img, warnings)"
      unfolding cv r by simp
    with rest show ?thesis by blast
  qed
  from loop none some show ?thesis
    unfolding Let_def idxs_def [symmetric] good_def [symmetric] warnings_def [symmetric]
    by blast
qed

text \<open>
  A video of 3 by 2 pixels with one channel and shifts of at most 1: with every raw draw equal to
  1 the crop rectangle is \<open>(1, 2, 1, 3)\<close>. Of the three reads at the indices 0, 50 and 100
  the second fails.
\<close>

lemma tiny_sampler:
  "Randomized_Frame_Sampler (3, 2) (1, 1) (1, 1) 3 (sconst 1) =
     Inr (\<lparr> video_width = 3, video_height = 2, max_x_shift = 1, max_y_shift = 1,
            min_duration = 1, max_duration = 1, num_samples = 3,
            crop_y1y2x1x2 = (1, 2, 1, 3),
            norm_sample_idxs = [0, 1 / 2, 1] \<rparr>, sconst 1)"
  by (simp add: Randomized_Frame_Sampler_def get_randomized_crop_coords_def
      get_randomized_norm_sampling_indices_def np_random_randint_def np_random_rand_def
      np_linspace_def Let_def upt_conv_Cons)

lemma tiny_indices:
  "get_frame_indices
     \<lparr> video_width = 3, video_height = 2, max_x_shift = 1, max_y_shift = 1,
       min_duration = 1, max_duration = 1, num_samples = 3,
       crop_y1y2x1x2 = (1, 2, 1, 3),
       norm_sample_idxs = [0, 1 / 2, 1] \<rparr> 101 = [0, 50, 100]"
  by (simp add: get_frame_indices_def np_round_def np_int32_def Let_def floor_numeral_rat)

lemma tiny_one_failure:
  "capture_variant
     \<lparr> video_width = 3, video_height = 2, max_x_shift = 1, max_y_shift = 1,
       min_duration = 1, max_duration = 1, num_samples = 3,
       crop_y1y2x1x2 = (1, 2, 1, 3),
       norm_sample_idxs = [0, 1 / 2, 1] \<rparr> 101
     (\<lambda>i. if i = 0 then Some [[[10], [20], [30]], [[40], [50], [60]]]
          else if i = 100 then Some [[[1], [2], [3]], [[4], [5], [7]]]
          else None) =
   Inr (Array [[[28], [34]]], [Error_reading_frame_Skipping 50])"
  unfolding capture_variant_def tiny_indices
  by (simp add: crop_def py_slice_def slice_bound_def new_median_bg_def np_median_axis0_def
      median_1d_def np_round_def np_uint8_def Let_def upt_conv_Cons floor_numeral_rat)

lemma tiny_all_fail:
  "capture_variant
     \<lparr> video_width = 3, video_height = 2, max_x_shift = 1, max_y_shift = 1,
       min_duration = 1, max_duration = 1, num_samples = 3,
       crop_y1y2x1x2 = (1, 2, 1, 3),
       norm_sample_idxs = [0, 1 / 2, 1] \<rparr> 101 (\<lambda>i. None) =
   Inr (Nan_scalar, [Error_reading_frame_Skipping 0, Error_reading_frame_Skipping 50,
                     Error_reading_frame_Skipping 100])"
  unfolding capture_variant_def tiny_indices
  by (simp add: new_median_bg_def np_median_axis0_def)

theorem capture_variant_skips_failed_reads_witness:
  "Randomized_Frame_Sampler (3, 2) (1, 1) (1, 1) 3 (sconst 1) =
     Inr (\<lparr> video_width = 3, video_height = 2, max_x_shift = 1, max_y_shift = 1,
            min_duration = 1, max_duration = 1, num_samples = 3,
            crop_y1y2x1x2 = (1, 2, 1, 3),
            norm_sample_idxs = [0, 1 / 2, 1] \<rparr>, sconst 1) \<and>
   capture_samples
     \<lparr> video_width = 3, video_height = 2, max_x_shift = 1, max_y_shift = 1,
       min_duration = 1, max_duration = 1, num_samples = 3,
       crop_y1y2x1x2 = (1, 2, 1, 3),
       norm_sample_idxs = [0, 1 / 2, 1] \<rparr>
     (\<lambda>i. if i = 0 then Some [[[10], [20], [30]], [[40], [50], [60]]]
          else if i = 100 then Some [[[1], [2], [3]], [[4], [5], [7]]]
          else None) [0, 50, 100] [] [] =
     ([[[[50], [60]]], [[[5], [7]]]], [Error_reading_frame_Skipping 50]) \<and>
   capture_variant
     \<lparr> video_width = 3, video_height = 2, max_x_shift = 1, max_y_shift = 1,
       min_duration = 1, max_duration = 1, num_samples = 3,
       crop_y1y2x1x2 = (1, 2, 1, 3),
       norm_sample_idxs = [0, 1 / 2, 1] \<rparr> 101
     (\<lambda>i. if i = 0 then Some [[[10], [20], [30]], [[40], [50], [60]]]
          else if i = 100 then Some [[[1], [2], [3]], [[4], [5], [7]]]
          else None) =
   Inr (Array [[[28], [34]]], [Error_reading_frame_Skipping 50])"
proof -
  let ?s = "\<lparr> video_width = 3, video_height = 2, max_x_shift = 1, max_y_shift = 1,
       min_duration = 1, max_duration = 1, num_samples = 3,
       crop_y1y2x1x2 = (1, 2, 1, 3),
       norm_sample_idxs = [0, 1 / 2, 1] \<rparr>"
  let ?vread = "\<lambda>i :: int. if i = 0 then Some [[[10], [20], [30]], [[40], [50], [60 :: 8 word]]]
          else if i = 100 then Some [[[1], [2], [3]], [[4], [5], [7]]]
          else None"
  have good: "map (crop ?s) (List.map_filter (\<lambda>i. ?vread (sint i)) [0, 50, 100 :: 32 word]) =
      [[[[50], [60]]], [[[5], [7]]]]"
    by (simp add: List.map_filter_def crop_def py_slice_def slice_bound_def)
  have warn: "map Error_reading_frame_Skipping
      (filter (\<lambda>i. ?vread (sint i) = None) [0, 50, 100 :: 32 word]) =
      [Error_reading_frame_Skipping 50]"
    by simp
  from capture_variant_skips_failed_reads [of ?s 101 ?vread "[[1, 1, 1], [1, 1, 1]]"]
  have "capture_samples ?s ?vread [0, 50, 100] [] [] =
      ([[[[50], [60]]], [[[5], [7]]]], [Error_reading_frame_Skipping 50])"
    unfolding Let_def tiny_indices good warn by (rule conjunct1)
  with tiny_sampler tiny_one_failure show ?thesis by (intro conjI)
qed

text \<open>
  The claim as stated fails where every read fails: the loop reports no error for the variant,
  it appends the conversion of NaN to the results and returns.
\<close>

theorem capture_variant_skips_failed_reads_counterexample:
  "Randomized_Frame_Sampler (3, 2) (1, 1) (1, 1) 3 (sconst 1) =
     Inr (\<lparr> video_width = 3, video_height = 2, max_x_shift = 1, max_y_shift = 1,
            min_duration = 1, max_duration = 1, num_samples = 3,
            crop_y1y2x1x2 = (1, 2, 1, 3),
            norm_sample_idxs = [0, 1 / 2, 1] \<rparr>, sconst 1) \<and>
   capture_loop
     [\<lparr> video_width = 3, video_height = 2, max_x_shift = 1, max_y_shift = 1,
        min_duration = 1, max_duration = 1, num_samples = 3,
        crop_y1y2x1x2 = (1, 2, 1, 3),
        norm_sample_idxs = [0, 1 / 2, 1] \<rparr>] 101 (\<lambda>i. None) [] [] =
   Inr ([Nan_scalar],
        [Error_reading_frame_Skipping 0, Error_reading_frame_Skipping 50,
         Error_reading_frame_Skipping 100])"
  using tiny_sampler tiny_all_fail by simp

section \<open>Properties of the save block\<close>

lemma lower_char_code: "(of_char (lower_char c) :: nat) = 
   (if (65 \<le> (of_char c :: nat) \<and> (of_char c :: nat) \<le> 90) \<or>
       (192 \<le> (of_char c :: nat) \<and> (of_char c :: nat) \<le> 222 \<and> (of_char c :: nat) \<noteq> 215)
    then of_char c + 32 else of_char c)"
  by (simp add: lower_char_def Let_def of_char_of)

lemma lower_char_not_sep: 
  assumes "c \<noteq> CHR ''/''" shows "lower_char c \<noteq> CHR ''/''"
proof
  assume "lower_char c = CHR ''/''"
  then have "(of_char (lower_char c) :: nat) = of_char (CHR ''/'')" by simp
  then have e: "(of_char (lower_char c) :: nat) = 47" by simp
  have "(of_char c :: nat) = 47" using e unfolding lower_char_code by (simp split: if_splits)
  then have "(of_char c :: nat) = of_char (CHR ''/'')" by simp
  then have "c = CHR ''/''" by (simp only: of_char_eq_iff)
  with assms show False by simp
qed

lemma length_takeWhile_neq_less:
  "c \<in> set xs \<Longrightarrow> length (takeWhile (\<lambda>d. d \<noteq> c) xs) < length xs"
  by (induction xs) auto

lemma os_path_basename_eq:
  "os_path_basename p = rev (takeWhile (\<lambda>d. d \<noteq> CHR ''/'') (rev p))"
proof (cases "CHR ''/'' \<in> set p")
  case False
  then have "takeWhile (\<lambda>d. d \<noteq> CHR ''/'') (rev p) = rev p"
    by (intro takeWhile_eq_all_conv [THEN iffD2]) auto
  then have "rev (takeWhile (\<lambda>d. d \<noteq> CHR ''/'') (rev p)) = p" by (simp only: rev_rev_ident)
  moreover have "os_path_basename p = p" using False by (simp add: os_path_basename_def rfind_def)
  ultimately show ?thesis by (simp only:)
next
  case True
  let ?t = "takeWhile (\<lambda>d. d \<noteq> CHR ''/'') (rev p)"
  let ?k = "length ?t"
  have "?k < length (rev p)"
    using True by (intro length_takeWhile_neq_less) simp
  then have k: "?k < length p" by simp
  have "nat (rfind CHR ''/'' p + 1) = length p - ?k"
    using True k by (simp add: rfind_def)
  then have "os_path_basename p = drop (length p - ?k) p"
    by (simp add: os_path_basename_def)
  also have "\<dots> = rev (take ?k (rev p))"
    by (simp add: rev_take)
  also have "take ?k (rev p) = ?t"
    by (rule takeWhile_eq_take [symmetric])
  finally show ?thesis .
qed

lemma os_path_basename_no_sep: "CHR ''/'' \<notin> set (os_path_basename p)"
proof
  assume "CHR ''/'' \<in> set (os_path_basename p)"
  then have "CHR ''/'' \<in> set (takeWhile (\<lambda>d. d \<noteq> CHR ''/'') (rev p))"
    by (simp add: os_path_basename_eq)
  then show False by (auto dest: set_takeWhileD)
qed

lemma os_path_splitext_subset: "set (fst (os_path_splitext p)) \<subseteq> set p"
  by (auto simp: os_path_splitext_def Let_def dest: in_set_takeD)

lemma str_strip_subset: "set (str_strip s) \<subseteq> set s"
proof -
  have "set (dropWhile py_isspace (rev (dropWhile py_isspace s))) \<subseteq> set (rev (dropWhile py_isspace s))"
    by (rule set_dropWhileD [THEN subsetI])
  also have "\<dots> \<subseteq> set s" by (auto dest: set_dropWhileD)
  finally show ?thesis by (simp add: str_strip_def)
qed

lemma video_name_only_no_sep: "CHR ''/'' \<notin> set (video_name_only video_source)"
proof
  assume "CHR ''/'' \<in> set (video_name_only video_source)"
  then obtain c where
    c: "c \<in> set (str_strip (fst (os_path_splitext (os_path_basename video_source))))" and
    e: "(if lower_char c = CHR '' '' then CHR ''_'' else lower_char c) = CHR ''/''"
    by (auto simp: video_name_only_def Let_def replace_space_underscore_def str_lower_def)
  from e have l: "lower_char c = CHR ''/''" by (simp split: if_splits)
  from c str_strip_subset os_path_splitext_subset
  have "c \<in> set (os_path_basename video_source)" by blast
  with os_path_basename_no_sep have "c \<noteq> CHR ''/''" by metis
  from lower_char_not_sep [OF this] l show False by simp
qed

lemma lower_char_space:
  assumes "py_isspace c \<longrightarrow> c = CHR '' ''"
  shows "py_isspace (lower_char c) = (lower_char c = CHR '' '')"
proof (cases "(65 \<le> (of_char c :: nat) \<and> (of_char c :: nat) \<le> 90) \<or>
       (192 \<le> (of_char c :: nat) \<and> (of_char c :: nat) \<le> 222 \<and> (of_char c :: nat) \<noteq> 215)")
  case True
  then have v: "(of_char (lower_char c) :: nat) = of_char c + 32"
    by (simp add: lower_char_code)
  have a: "\<not> py_isspace (lower_char c)"
    unfolding py_isspace_def Let_def v using True by auto
  have "(of_char (lower_char c) :: nat) \<noteq> of_char (CHR '' '')"
    unfolding v using True by auto
  then have b: "lower_char c \<noteq> CHR '' ''" by (simp only: of_char_eq_iff not_False_eq_True)
  from a b show ?thesis by simp
next
  case False
  then have e: "lower_char c = c" unfolding lower_char_def Let_def by (simp only: if_False)
  have "py_isspace (CHR '' '')" by (simp add: py_isspace_def)
  with assms show ?thesis unfolding e by auto
qed

text \<open>
  Claim C9, as amended. For every video path, the path that an image is written to is
  \<^verbatim>\<open>join(join(abs_output, name), "(x_shift, y_shift).png")\<close>, where \<open>name\<close> is the base
  name of the video without its extension, with leading and trailing whitespace removed,
  lowercased, and each space character replaced by an underscore (other whitespace inside the
  name stays). For an output folder that does not end with a separator and a non-empty
  \<open>name\<close> this is \<open>abs_output/name/(x_shift, y_shift).png\<close>. Where the base name has no
  leading or trailing whitespace and no whitespace other than the space character, \<open>name\<close>
  is the sanitized base name of the specification.
\<close>

theorem save_path_layout:
  "let stem = fst (os_path_splitext (os_path_basename video_source));
       name = replace_space_underscore (str_lower (str_strip stem));
       fname = ''('' @ str_of_int (fst (get_xy_shift s)) @ '', '' @
              str_of_int (snd (get_xy_shift s)) @ '').png''
   in save_path abs_output video_source s = os_path_join (os_path_join abs_output name) fname \<and>
      (abs_output \<noteq> [] \<and> last abs_output \<noteq> CHR ''/'' \<and> name \<noteq> [] \<longrightarrow>
         save_path abs_output video_source s = abs_output @ ''/'' @ name @ ''/'' @ fname) \<and>
      (str_strip stem = stem \<and> (\<forall>c \<in> set stem. py_isspace c \<longrightarrow> c = CHR '' '') \<longrightarrow>
         name = spec_sanitized_basename video_source)"
proof -
  define stem where "stem = fst (os_path_splitext (os_path_basename video_source))"
  define name where "name = replace_space_underscore (str_lower (str_strip stem))"
  define fname where "fname = ''('' @ str_of_int (fst (get_xy_shift s)) @ '', '' @
              str_of_int (snd (get_xy_shift s)) @ '').png''"
  have vn: "video_name_only video_source = name"
    by (simp add: video_name_only_def Let_def name_def stem_def)
  have sn: "save_name (get_xy_shift s) = fname"
    by (cases "get_xy_shift s") (simp add: save_name_def fname_def)
  have p: "save_path abs_output video_source s = os_path_join (os_path_join abs_output name) fname"
    by (simp add: save_path_def save_folder_path_def vn sn)
  have fh: "fname \<noteq> []" "hd fname = CHR ''(''" by (simp_all add: fname_def)
  have full: "save_path abs_output video_source s = abs_output @ ''/'' @ name @ ''/'' @ fname"
    if a: "abs_output \<noteq> []" "last abs_output \<noteq> CHR ''/''" and n: "name \<noteq> []"
  proof -
    have ns: "CHR ''/'' \<notin> set name"
      using video_name_only_no_sep [of video_source] unfolding vn .
    from n ns have h: "hd name \<noteq> CHR ''/''" and l: "last name \<noteq> CHR ''/''"
      by (metis hd_in_set, metis last_in_set)
    have j1: "os_path_join abs_output name = abs_output @ ''/'' @ name"
      using a h by (simp add: os_path_join_def)
    have "last (abs_output @ ''/'' @ name) = last name" using n by simp
    with l have l2: "last (abs_output @ ''/'' @ name) \<noteq> CHR ''/''" by simp
    have "os_path_join (abs_output @ ''/'' @ name) fname = (abs_output @ ''/'' @ name) @ ''/'' @ fname"
      unfolding os_path_join_def using l2 fh n by simp
    then show ?thesis unfolding p j1 by simp
  qed
  have sp: "name = spec_sanitized_basename video_source"
    if st: "str_strip stem = stem" and ws: "\<forall>c \<in> set stem. py_isspace c \<longrightarrow> c = CHR '' ''"
  proof -
    have "(if lower_char c = CHR '' '' then CHR ''_'' else lower_char c) =
          (if py_isspace (lower_char c) then CHR ''_'' else lower_char c)" if "c \<in> set stem" for c
      using lower_char_space [of c] ws that by simp
    then have "map (\<lambda>c. if lower_char c = CHR '' '' then CHR ''_'' else lower_char c) stem =
               map (\<lambda>c. if py_isspace (lower_char c) then CHR ''_'' else lower_char c) stem"
      by (intro map_cong) simp_all
    then show ?thesis
      by (simp add: name_def st spec_sanitized_basename_def stem_def [symmetric]
          replace_space_underscore_def str_lower_def comp_def)
  qed
  from p full sp show ?thesis
    unfolding Let_def stem_def [symmetric] name_def [symmetric] fname_def [symmetric]
    by blast
qed

lemmas path_eval =
  video_name_only_def spec_sanitized_basename_def os_path_basename_def os_path_splitext_def
  os_path_join_def rfind_def str_strip_def str_lower_def lower_char_def py_isspace_def
  replace_space_underscore_def save_path_def save_folder_path_def save_name_def str_of_int_def
  get_xy_shift_def py_int_def Let_def char_of_eq_iff

theorem save_path_layout_witness:
  "save_path ''/home/u/results'' ''/videos/My Clip.MP4''
     \<lparr> video_width = 640, video_height = 480, max_x_shift = 100, max_y_shift = 100,
       min_duration = 1, max_duration = 1, num_samples = 5,
       crop_y1y2x1x2 = (48, 428, 48, 588),
       norm_sample_idxs = [0, 1 / 4, 1 / 2, 3 / 4, 1] \<rparr> =
     ''/home/u/results/my_clip/(-2, -2).png'' \<and>
   str_strip ''My Clip'' = ''My Clip'' \<and>
   spec_sanitized_basename ''/videos/My Clip.MP4'' = ''my_clip''"
proof -
  let ?s = "\<lparr> video_width = 640, video_height = 480, max_x_shift = 100, max_y_shift = 100,
       min_duration = 1, max_duration = 1, num_samples = 5,
       crop_y1y2x1x2 = (48, 428, 48, 588),
       norm_sample_idxs = [0, 1 / 4, 1 / 2, 3 / 4, 1] \<rparr>"
  have stem: "fst (os_path_splitext (os_path_basename ''/videos/My Clip.MP4'')) = ''My Clip''"
    by (simp add: path_eval)
  have strip: "str_strip ''My Clip'' = ''My Clip''"
    by (simp add: path_eval)
  have name: "replace_space_underscore (str_lower ''My Clip'') = ''my_clip''"
    by (simp add: path_eval)
  have fname: "''('' @ str_of_int (fst (get_xy_shift ?s)) @ '', '' @
              str_of_int (snd (get_xy_shift ?s)) @ '').png'' = ''(-2, -2).png''"
    by (simp add: path_eval)
  have ws: "\<forall>c \<in> set ''My Clip''. py_isspace c \<longrightarrow> c = CHR '' ''"
    by (simp add: path_eval)
  note t = save_path_layout [of "''/videos/My Clip.MP4''" ?s "''/home/u/results''",
      unfolded Let_def stem strip name fname]
  have pre1: "''/home/u/results'' \<noteq> [] \<and> last ''/home/u/results'' \<noteq> CHR ''/'' \<and>
      ''my_clip'' \<noteq> []"
    by simp
  have pre2: "''My Clip'' = ''My Clip'' \<and> (\<forall>c \<in> set ''My Clip''. py_isspace c \<longrightarrow> c = CHR '' '')"
    using ws by simp
  from t pre1 have a: "save_path ''/home/u/results'' ''/videos/My Clip.MP4'' ?s =
          ''/home/u/results'' @ ''/'' @ ''my_clip'' @ ''/'' @ ''(-2, -2).png''"
    by blast
  from t pre2 have b: "''my_clip'' = spec_sanitized_basename ''/videos/My Clip.MP4''"
    by blast
  from a have a': "save_path ''/home/u/results'' ''/videos/My Clip.MP4'' ?s =
      ''/home/u/results/my_clip/(-2, -2).png''"
    by simp
  from a' strip b [symmetric] show ?thesis by (intro conjI)
qed

text \<open>
  The claim as stated fails on a base name with whitespace at its ends, which the code removes
  and does not replace, and on a tab inside the name, which the code keeps.
\<close>

theorem save_path_layout_counterexample:
  "save_path ''/out'' ''/tmp/ My Clip .mp4''
     \<lparr> video_width = 640, video_height = 480, max_x_shift = 100, max_y_shift = 100,
       min_duration = 1, max_duration = 1, num_samples = 5,
       crop_y1y2x1x2 = (48, 428, 48, 588),
       norm_sample_idxs = [0, 1 / 4, 1 / 2, 3 / 4, 1] \<rparr> = ''/out/my_clip/(-2, -2).png'' \<and>
   spec_sanitized_basename ''/tmp/ My Clip .mp4'' = ''_my_clip_'' \<and>
   save_path ''/out'' ''/tmp/ My Clip .mp4''
     \<lparr> video_width = 640, video_height = 480, max_x_shift = 100, max_y_shift = 100,
       min_duration = 1, max_duration = 1, num_samples = 5,
       crop_y1y2x1x2 = (48, 428, 48, 588),
       norm_sample_idxs = [0, 1 / 4, 1 / 2, 3 / 4, 1] \<rparr> \<noteq>
     ''/out/'' @ spec_sanitized_basename ''/tmp/ My Clip .mp4'' @ ''/(-2, -2).png'' \<and>
   video_name_only (''/tmp/a'' @ [CHR 0x09] @ ''b.mp4'') = ''a'' @ [CHR 0x09] @ ''b'' \<and>
   spec_sanitized_basename (''/tmp/a'' @ [CHR 0x09] @ ''b.mp4'') = ''a_b''"
  by (simp add: path_eval)

end
